theory Spec2Isabelle
  imports Complex_Main "HOL-Library.AList" "HOL-Library.Char_ord" "HOL-Library.List_Lexorder"
    "HOL-Library.Sublist"
begin

section \<open>Hits and the ranking comparator\<close>

text \<open>
  A \<open>Hit\<close> is a scored search result.  Go strings are byte sequences compared
  bytewise, which is the lexicographic order on \<open>char list\<close>.  The \<open>float64\<close>
  score is modelled by a real number: every score that \<open>Search\<close> computes is a
  finite float, and on finite floats the comparisons of the code are the
  comparisons of the reals; rounding of the arithmetic is not modelled.
\<close>

record Hit =
  URL :: string
  Score :: real

text \<open>\<open>lessHit\<close>: higher score first; if scores are equal, URL ascending.\<close>

definition lessHit :: "Hit \<Rightarrow> Hit \<Rightarrow> bool" where
  "lessHit a b = (if Score a \<noteq> Score b then Score a > Score b else URL b > URL a)"

text \<open>
  \<open>sort.Slice(hits, lessHit)\<close>.  The library sort is not stable, but on hits
  with pairwise distinct URLs \<open>lessHit\<close> is a strict linear order, so every
  correct sort returns the same list; insertion sort stands for it.
\<close>

fun insert_hit :: "Hit \<Rightarrow> Hit list \<Rightarrow> Hit list" where
  "insert_hit h [] = [h]"
| "insert_hit h (x # xs) = (if lessHit h x then h # x # xs else x # insert_hit h xs)"

definition sort_hits :: "Hit list \<Rightarrow> Hit list" where
  "sort_hits hs = foldr insert_hit hs []"

section \<open>Lower-casing and stemming\<close>

text \<open>
  \<open>strings.ToLower\<close> on ASCII text: the bytes \<open>A\<close> to \<open>Z\<close> get bit 5 set
  (which adds 32), every other byte is unchanged.  Letters outside ASCII, which
  the library function also maps, are not modelled; the functions below take
  the lower-casing as a parameter and this one instantiates it on examples.
\<close>

definition lower_byte :: "char \<Rightarrow> char" where
  "lower_byte c =
     (if CHR ''A'' \<le> c \<and> c \<le> CHR ''Z''
      then (case c of Char b0 b1 b2 b3 b4 b5 b6 b7 \<Rightarrow> Char b0 b1 b2 b3 b4 True b6 b7)
      else c)"

definition ToLower :: "string \<Rightarrow> string" where
  "ToLower w = map lower_byte w"

text \<open>
  The Snowball stemmer \<open>english.Stem\<close> is a library of its own and a parameter
  of the functions below.  On the words of the examples (\<open>whale\<close>, \<open>ship\<close>,
  \<open>sea\<close>) it returns the word unchanged, which is all that \<open>stem_example\<close>
  stands for.
\<close>

definition stem_example :: "string \<Rightarrow> string" where
  "stem_example w = w"

section \<open>The in-memory indexer\<close>

text \<open>
  \<open>strings.ToLower\<close> and the Snowball stemmer \<open>english.Stem\<close> are library
  functions; the indexer takes them as the parameters \<open>lower\<close> and \<open>stem\<close>.
  A Go map read at a missing key returns the zero value, so \<open>df\<close> is a total
  function (default 0) and \<open>tf\<close> maps a stem to its postings (default: none).
  The postings of a stem are the inner map \<open>doc \<rightarrow> term frequency\<close>, kept as an
  association list because \<open>Search\<close> iterates over it.  \<open>docLen\<close> is a partial
  map because \<open>AddDocument\<close> tests the presence of a key.  Go's 64-bit \<open>int\<close>
  counters are natural numbers: they only count words and documents.
\<close>

record InMemIndexer =
  tf :: "string \<Rightarrow> (string \<times> nat) list"
  df :: "string \<Rightarrow> nat"
  docLen :: "string \<rightharpoonup> nat"
  N :: nat
  stop :: "string set"

text \<open>\<open>DefaultStopwords\<close>: a common English stopword set.\<close>

definition DefaultStopwords :: "string set" where
  "DefaultStopwords = set [
     ''a'', ''an'', ''the'', ''and'', ''or'', ''but'',
     ''to'', ''in'', ''of'', ''on'', ''for'', ''with'', ''as'', ''at'', ''by'', ''from'',
     ''is'', ''are'', ''was'', ''were'', ''be'', ''been'', ''being'',
     ''this'', ''that'', ''these'', ''those'', ''it'', ''its'', ''itself'',
     ''i'', ''me'', ''my'', ''myself'', ''we'', ''our'', ''ours'', ''ourselves'',
     ''you'', ''your'', ''yours'', ''yourself'', ''yourselves'',
     ''he'', ''him'', ''his'', ''himself'', ''she'', ''her'', ''hers'', ''herself'',
     ''they'', ''them'', ''their'', ''theirs'', ''themselves'',
     ''do'', ''does'', ''did'', ''doing'',
     ''have'', ''has'', ''had'', ''having'',
     ''not'', ''no'', ''nor'', ''only'', ''very'', ''too'',
     ''can'', ''could'', ''should'', ''would'', ''may'', ''might'', ''must'', ''will'',
     ''if'', ''then'', ''else'', ''than'', ''so'', ''because'', ''while'', ''when'', ''where'',
     ''about'', ''above'', ''below'', ''under'', ''over'', ''into'', ''out'', ''up'', ''down'',
     ''again'', ''further'', ''once'', ''here'', ''there'']"

text \<open>
  \<open>NewInMemIndexer\<close>: a \<open>nil\<close> stopword map (\<open>None\<close>) selects the default set.
\<close>

definition NewInMemIndexer :: "string set option \<Rightarrow> InMemIndexer" where
  "NewInMemIndexer stopo =
     \<lparr>tf = (\<lambda>_. []), df = (\<lambda>_. 0), docLen = Map.empty, N = 0,
      stop = (case stopo of None \<Rightarrow> DefaultStopwords | Some st \<Rightarrow> st)\<rparr>"

text \<open>
  One iteration of the word loop of \<open>AddDocument\<close>.  The loop state is the
  \<open>tf\<close> table, the set \<open>seen\<close> (a duplicate-free list) and the counter \<open>kept\<close>.
\<close>

definition add_word ::
  "(string \<Rightarrow> string) \<Rightarrow> (string \<Rightarrow> string) \<Rightarrow> string set \<Rightarrow> string \<Rightarrow>
   (string \<Rightarrow> (string \<times> nat) list) \<times> string list \<times> nat \<Rightarrow> string \<Rightarrow>
   (string \<Rightarrow> (string \<times> nat) list) \<times> string list \<times> nat" where
  "add_word lower stem st doc acc w =
     (case acc of (t, seen, kept) \<Rightarrow>
        if w = [] then acc
        else let lw = lower w in
          if lw \<in> st then acc
          else let s = stem lw in
            if s = [] then acc
            else (t(s := map_default doc 1 Suc (t s)),
                  (if s \<in> set seen then seen else seen @ [s]),
                  kept + 1))"

definition InMem_AddDocument ::
  "(string \<Rightarrow> string) \<Rightarrow> (string \<Rightarrow> string) \<Rightarrow> InMemIndexer \<Rightarrow> string \<Rightarrow> string list \<Rightarrow>
   InMemIndexer" where
  "InMem_AddDocument lower stem idx doc ws =
     (if docLen idx doc \<noteq> None then idx
      else case foldl (add_word lower stem (stop idx) doc) (tf idx, [], 0) ws of
        (t, seen, kept) \<Rightarrow>
          idx\<lparr>tf := t,
              df := foldl (\<lambda>d s. d(s := d s + 1)) (df idx) seen,
              docLen := (docLen idx)(doc \<mapsto> kept),
              N := N idx + 1\<rparr>)"

text \<open>
  The loop of \<open>Search\<close> over the postings of the stem: a document whose
  \<open>docLen\<close> is 0 (or missing, which reads as 0) is skipped.
\<close>

fun collect_hits :: "InMemIndexer \<Rightarrow> real \<Rightarrow> (string \<times> nat) list \<Rightarrow> Hit list" where
  "collect_hits idx idf [] = []"
| "collect_hits idx idf ((doc, tfreq) # ps) =
     (let den = (case docLen idx doc of None \<Rightarrow> 0 | Some n \<Rightarrow> n) in
      if den = 0 then collect_hits idx idf ps
      else \<lparr>URL = doc, Score = (real tfreq / real den) * idf\<rparr> # collect_hits idx idf ps)"

definition InMem_Search ::
  "(string \<Rightarrow> string) \<Rightarrow> (string \<Rightarrow> string) \<Rightarrow> InMemIndexer \<Rightarrow> string \<Rightarrow> Hit list" where
  "InMem_Search lower stem idx term =
     (if term = [] \<or> N idx = 0 then []
      else let q = lower term in
        if q \<in> stop idx then []
        else let s = stem q; d = df idx s in
          if d = 0 then []
          else let idf = ln (real (N idx) / real d) in
            sort_hits (collect_hits idx idf (tf idx s)))"

text \<open>
  The index built by a sequence of \<open>AddDocument\<close> calls on a new indexer
  with stopword set \<open>st\<close>; a call is a pair of the URL and the raw words.
\<close>

definition build ::
  "(string \<Rightarrow> string) \<Rightarrow> (string \<Rightarrow> string) \<Rightarrow> string set \<Rightarrow> (string \<times> string list) list \<Rightarrow>
   InMemIndexer" where
  "build lower stem st calls =
     foldl (\<lambda>idx c. InMem_AddDocument lower stem idx (fst c) (snd c)) (NewInMemIndexer (Some st)) calls"

section \<open>The corpus described by a sequence of calls\<close>

text \<open>
  The specification speaks of the tokens of a document that survive stopword
  and stem filtering, of the count of a stem in a document and of the
  documents containing a stem.  These are stated here on the call sequence
  itself, independently of the index; \<open>map_of calls\<close> is the corpus, in which the
  first call for a URL counts.  \<open>add_token\<close> is the body of the word loop for a
  word that survives, and \<open>den_of\<close> the denominator that \<open>Search\<close> reads.
\<close>

definition kept_tokens :: "(string \<Rightarrow> string) \<Rightarrow> (string \<Rightarrow> string) \<Rightarrow> string set \<Rightarrow> string list \<Rightarrow> string list" where
  "kept_tokens lower stem st ws =
     filter (\<lambda>s. s \<noteq> []) (map (\<lambda>w. stem (lower w)) (filter (\<lambda>w. w \<noteq> [] \<and> lower w \<notin> st) ws))"

definition add_token ::
  "string \<Rightarrow> (string \<Rightarrow> (string \<times> nat) list) \<times> string list \<times> nat \<Rightarrow> string \<Rightarrow>
   (string \<Rightarrow> (string \<times> nat) list) \<times> string list \<times> nat" where
  "add_token doc acc s =
     (case acc of (t, seen, kept) \<Rightarrow>
        (t(s := map_default doc 1 Suc (t s)), (if s \<in> set seen then seen else seen @ [s]), kept + 1))"

definition spec_posting :: "(string \<Rightarrow> string) \<Rightarrow> (string \<Rightarrow> string) \<Rightarrow> string set \<Rightarrow>
    (string \<times> string list) list \<Rightarrow> string \<Rightarrow> string \<Rightarrow> nat option" where
  "spec_posting lower stem st calls s d =
     (case map_of calls d of None \<Rightarrow> None
      | Some ws \<Rightarrow> if s \<in> set (kept_tokens lower stem st ws)
                  then Some (count_list (kept_tokens lower stem st ws) s) else None)"

definition docs_containing :: "(string \<Rightarrow> string) \<Rightarrow> (string \<Rightarrow> string) \<Rightarrow> string set \<Rightarrow>
    (string \<times> string list) list \<Rightarrow> string \<Rightarrow> string set" where
  "docs_containing lower stem st calls s =
     {d. \<exists>ws. map_of calls d = Some ws \<and> s \<in> set (kept_tokens lower stem st ws)}"

definition den_of :: "InMemIndexer \<Rightarrow> string \<Rightarrow> nat" where
  "den_of idx doc = (case docLen idx doc of None \<Rightarrow> 0 | Some n \<Rightarrow> n)"

section \<open>The downloader\<close>

text \<open>
  \<open>Download\<close> calls \<open>http.Get\<close> and reads the body.  The network is not part
  of the program: the argument of \<open>Download\<close> is the outcome of \<open>http.Get(u)\<close>,
  either an error or a response; \<open>Body\<close> is what \<open>io.ReadAll\<close> yields on the
  response body, the bytes read and the read error, if any.  The result is the
  Go pair \<open>([]byte, error)\<close>, \<open>None\<close> standing for \<open>nil\<close>.
\<close>

record Response =
  StatusCode :: int
  Status :: string
  Body :: "string \<times> string option"

definition Download :: "string + Response \<Rightarrow> string option \<times> string option" where
  "Download got =
     (case got of
        Inl err \<Rightarrow> (None, Some err)
      | Inr resp \<Rightarrow>
          if StatusCode resp \<noteq> 200 then (None, Some (Status resp))
          else (case Body resp of (bytes, err) \<Rightarrow> (Some bytes, err)))"

section \<open>The extractor\<close>

text \<open>
  \<open>Extract\<close> walks the tree that \<open>html.Parse\<close> returns.  The parser is a
  library; the argument of \<open>Extract\<close> is the outcome of \<open>html.Parse\<close> on the
  body, an error or the root node.  A node carries its type, its data (the tag
  name of an element, the text of a text node), its attributes and its
  children in order.
\<close>

datatype NodeType = ErrorNode | TextNode | DocumentNode | ElementNode | CommentNode | DoctypeNode

record Attribute =
  Key :: string
  Val :: string

datatype Node = Node (Type: NodeType) (Data: string) (Attr: "Attribute list") (Children: "Node list")

text \<open>
  String functions of the Go library, on ASCII text: \<open>strings.TrimSpace\<close>
  removes leading and trailing tab, line feed, vertical tab, form feed,
  carriage return and space; \<open>strings.EqualFold\<close> compares without regard to
  case; \<open>FindAllString\<close> returns the maximal runs of letters and digits (the
  matches of the pattern \<open>[\p{L}\p{N}]+\<close>).  White space, case pairs, letters
  and digits outside ASCII are not modelled.
\<close>

definition isSpace :: "char \<Rightarrow> bool" where
  "isSpace c \<longleftrightarrow> c \<in> {CHR 0x09, CHR 0x0A, CHR 0x0B, CHR 0x0C, CHR 0x0D, CHR '' ''}"

definition TrimSpace :: "string \<Rightarrow> string" where
  "TrimSpace s = rev (dropWhile isSpace (rev (dropWhile isSpace s)))"

definition EqualFold :: "string \<Rightarrow> string \<Rightarrow> bool" where
  "EqualFold s t \<longleftrightarrow> ToLower s = ToLower t"

definition isWordByte :: "char \<Rightarrow> bool" where
  "isWordByte c \<longleftrightarrow> (CHR ''a'' \<le> c \<and> c \<le> CHR ''z'') \<or> (CHR ''A'' \<le> c \<and> c \<le> CHR ''Z'')
     \<or> (CHR ''0'' \<le> c \<and> c \<le> CHR ''9'')"

fun FindAllString :: "string \<Rightarrow> string \<Rightarrow> string list" where
  "FindAllString cur [] = (if cur = [] then [] else [cur])"
| "FindAllString cur (c # cs) =
     (if isWordByte c then FindAllString (cur @ [c]) cs
      else if cur = [] then FindAllString [] cs
      else cur # FindAllString [] cs)"

text \<open>
  The walk of \<open>Extract\<close>.  \<open>isSkipped\<close> is the test for a \<open>script\<close> or \<open>style\<close>
  element; \<open>node_words\<close> and \<open>node_hrefs\<close> are what one node contributes while
  \<open>skipDepth\<close> is 0.  The closure \<open>walk\<close> updates \<open>words\<close>, \<open>hrefs\<close> and
  \<open>skipDepth\<close>; here it passes them along.
\<close>

definition isSkipped :: "Node \<Rightarrow> bool" where
  "isSkipped n \<longleftrightarrow> Type n = ElementNode \<and> (EqualFold (Data n) ''script'' \<or> EqualFold (Data n) ''style'')"

definition node_words :: "Node \<Rightarrow> string list" where
  "node_words n = (if Type n = TextNode then map ToLower (FindAllString [] (Data n)) else [])"

definition node_hrefs :: "Node \<Rightarrow> string list" where
  "node_hrefs n =
     (if Type n = ElementNode \<and> EqualFold (Data n) ''a''
      then concat (map (\<lambda>a. if EqualFold (Key a) ''href''
                              then (let val = TrimSpace (Val a) in if val \<noteq> [] then [val] else [])
                              else []) (Attr n))
      else [])"

fun walk :: "Node \<Rightarrow> string list \<times> string list \<times> int \<Rightarrow> string list \<times> string list \<times> int"
  and walk_children :: "Node list \<Rightarrow> string list \<times> string list \<times> int \<Rightarrow> string list \<times> string list \<times> int"
where
  "walk (Node nt nd na nc) (words, hrefs, skipDepth) =
     (let n = Node nt nd na nc;
          skipDepth1 = (if isSkipped n then skipDepth + 1 else skipDepth);
          words1 = (if skipDepth1 = 0 then words @ node_words n else words);
          hrefs1 = (if skipDepth1 = 0 then hrefs @ node_hrefs n else hrefs)
      in case walk_children nc (words1, hrefs1, skipDepth1) of
           (words2, hrefs2, skipDepth2) \<Rightarrow>
             (words2, hrefs2, if isSkipped n then skipDepth2 - 1 else skipDepth2))"
| "walk_children [] acc = acc"
| "walk_children (c # cs) acc = walk_children cs (walk c acc)"

definition Extract :: "string + Node \<Rightarrow> string list \<times> string list" where
  "Extract parsed =
     (case parsed of
        Inl err \<Rightarrow> ([], [])
      | Inr doc \<Rightarrow> (case walk doc ([], [], 0) of (words, hrefs, skipDepth) \<Rightarrow> (words, hrefs)))"

text \<open>
  Two descriptions of the href sequence, without the depth counter.
  \<open>verbatim_hrefs\<close> follows the words of the specification: the values of the
  \<open>href\<close> attributes of anchor elements outside script and style subtrees,
  unaltered, in document order.  \<open>trimmed_hrefs\<close> differs in that every value
  is trimmed of surrounding white space and dropped when nothing is left.
\<close>

fun verbatim_hrefs :: "Node \<Rightarrow> string list"
  and verbatim_hrefs_list :: "Node list \<Rightarrow> string list"
where
  "verbatim_hrefs (Node nt nd na nc) =
     (if isSkipped (Node nt nd na nc) then []
      else (if nt = ElementNode \<and> EqualFold nd ''a''
            then map Val (filter (\<lambda>a. EqualFold (Key a) ''href'') na) else [])
           @ verbatim_hrefs_list nc)"
| "verbatim_hrefs_list [] = []"
| "verbatim_hrefs_list (c # cs) = verbatim_hrefs c @ verbatim_hrefs_list cs"

fun trimmed_hrefs :: "Node \<Rightarrow> string list"
  and trimmed_hrefs_list :: "Node list \<Rightarrow> string list"
where
  "trimmed_hrefs (Node nt nd na nc) =
     (if isSkipped (Node nt nd na nc) then []
      else (if nt = ElementNode \<and> EqualFold nd ''a''
            then filter (\<lambda>v. v \<noteq> [])
                   (map (\<lambda>a. TrimSpace (Val a)) (filter (\<lambda>a. EqualFold (Key a) ''href'') na))
            else [])
           @ trimmed_hrefs_list nc)"
| "trimmed_hrefs_list [] = []"
| "trimmed_hrefs_list (c # cs) = trimmed_hrefs c @ trimmed_hrefs_list cs"

section \<open>Link cleaning and the crawler\<close>

text \<open>
  \<open>CleanHref\<close> and \<open>Crawl\<close> use the library \<open>net/url\<close>, the network and the
  HTML parser.  These form the environment \<open>Env\<close>: \<open>http_Get\<close> gives the
  outcome of \<open>http.Get\<close> for a URL, \<open>html_Parse\<close> the outcome of \<open>html.Parse\<close>
  for a body, and \<open>url_Parse\<close>, \<open>url_ResolveReference\<close>, \<open>url_String\<close> are the
  three functions of \<open>net/url\<close>.  A \<open>URL\<close> has the fields of \<open>url.URL\<close> that
  matter here.
\<close>

record URL =
  Scheme :: string
  Opaque :: string
  Host :: string
  Path :: string
  ForceQuery :: bool
  RawQuery :: string
  Fragment :: string

definition empty_URL :: URL where
  "empty_URL = \<lparr>Scheme = [], Opaque = [], Host = [], Path = [], ForceQuery = False,
                 RawQuery = [], Fragment = []\<rparr>"

record Env =
  http_Get :: "string \<Rightarrow> string + Response"
  html_Parse :: "string \<Rightarrow> string + Node"
  url_Parse :: "string \<Rightarrow> string + URL"
  url_ResolveReference :: "URL \<Rightarrow> URL \<Rightarrow> URL"
  url_String :: "URL \<Rightarrow> string"

text \<open>
  \<open>CleanHref\<close>: trim; drop an empty or fragment-only href; drop
  \<open>javascript:\<close> and \<open>data:\<close>; make the base end in a slash and parse it (the
  result is empty when it does not parse); parse the href, or take it as a bare
  path when it does not parse; resolve, strip the fragment, print.
\<close>

definition CleanHref :: "Env \<Rightarrow> string \<Rightarrow> string \<Rightarrow> string" where
  "CleanHref E base href0 =
     (let href = TrimSpace href0 in
      if href = [] \<or> prefix ''#'' href then []
      else let lower = ToLower href in
        if prefix ''javascript:'' lower \<or> prefix ''data:'' lower then []
        else let base1 = (if \<not> suffix ''/'' base then base @ ''/'' else base) in
          case url_Parse E base1 of
            Inl err \<Rightarrow> []
          | Inr baseURL \<Rightarrow>
              let refURL = (case url_Parse E href of
                              Inr u \<Rightarrow> u
                            | Inl err \<Rightarrow> empty_URL\<lparr>Path := href\<rparr>);
                  u = url_ResolveReference E baseURL refURL
              in url_String E (u\<lparr>Fragment := []\<rparr>))"

text \<open>
  \<open>Crawl\<close>.  \<open>enqueue\<close> is the body of the loop over the hrefs of a page,
  \<open>crawl_loop\<close> the loop over the queue with its state \<open>visited\<close>, \<open>queue\<close>,
  \<open>order\<close>.  Each round either drops a visited URL from the queue or appends
  to \<open>order\<close>, whose length is bounded by \<open>maxPages\<close>: the loop terminates.
\<close>

definition enqueue :: "Env \<Rightarrow> string \<Rightarrow> string set \<Rightarrow> string \<Rightarrow> string list \<Rightarrow> string \<Rightarrow> string list" where
  "enqueue E hostBase visited cur queue h =
     (let absURL = CleanHref E cur h in
      if absURL = [] then queue
      else if \<not> prefix hostBase absURL then queue
      else if absURL \<notin> visited then queue @ [absURL]
      else queue)"

function crawl_loop ::
  "Env \<Rightarrow> string \<Rightarrow> int \<Rightarrow> string set \<Rightarrow> string list \<Rightarrow> string list \<Rightarrow> string list" where
  "crawl_loop E hostBase maxPages visited queue order =
     (case queue of
        [] \<Rightarrow> order
      | cur # queue1 \<Rightarrow>
          if \<not> int (length order) < maxPages then order
          else if cur \<in> visited then crawl_loop E hostBase maxPages visited queue1 order
          else
            (case Download (http_Get E cur) of
               (body, Some err) \<Rightarrow>
                 crawl_loop E hostBase maxPages (insert cur visited) queue1 (order @ [cur])
             | (body, None) \<Rightarrow>
                 crawl_loop E hostBase maxPages (insert cur visited)
                   (foldl (enqueue E hostBase (insert cur visited) cur) queue1
                      (snd (Extract (html_Parse E (case body of None \<Rightarrow> [] | Some b \<Rightarrow> b)))))
                   (order @ [cur])))"
  by pat_completeness auto
termination
  by (relation "measures [\<lambda>(E, hostBase, maxPages, visited, queue, order). nat (maxPages - int (length order)),
                          \<lambda>(E, hostBase, maxPages, visited, queue, order). length queue]")
     auto

declare crawl_loop.simps [simp del]

definition Crawl :: "Env \<Rightarrow> string \<Rightarrow> int \<Rightarrow> string + string list" where
  "Crawl E start maxPages =
     (if maxPages \<le> 0 then Inr []
      else case url_Parse E start of
        Inl err \<Rightarrow> Inl err
      | Inr startURL \<Rightarrow>
          Inr (crawl_loop E (Scheme startURL @ ''://'' @ Host startURL @ ''/'') maxPages {} [start] []))"

section \<open>An environment for the examples\<close>

text \<open>
  A model of \<open>url.Parse\<close>, \<open>URL.ResolveReference\<close> and \<open>URL.String\<close> for
  references of the shape \<open>scheme://host/path?query#fragment\<close> and their
  relative forms: \<open>getScheme\<close>, the split into authority and path, the merge of
  paths with the removal of dot segments, and the printing.  User information,
  percent escapes and the validation of hosts are left out.  The theorems about
  \<open>CleanHref\<close> and \<open>Crawl\<close> hold for every environment; this one serves to run
  them on examples.
\<close>

definition Cut :: "string \<Rightarrow> char \<Rightarrow> string \<times> string \<times> bool" where
  "Cut s sep = (takeWhile (\<lambda>c. c \<noteq> sep) s, drop 1 (dropWhile (\<lambda>c. c \<noteq> sep) s), sep \<in> set s)"

definition isLetter :: "char \<Rightarrow> bool" where
  "isLetter c \<longleftrightarrow> (CHR ''a'' \<le> c \<and> c \<le> CHR ''z'') \<or> (CHR ''A'' \<le> c \<and> c \<le> CHR ''Z'')"

definition isSchemeByte :: "char \<Rightarrow> bool" where
  "isSchemeByte c \<longleftrightarrow> (CHR ''0'' \<le> c \<and> c \<le> CHR ''9'') \<or> c = CHR ''+'' \<or> c = CHR ''-'' \<or> c = CHR ''.''"

fun getScheme_scan :: "string \<Rightarrow> string \<Rightarrow> string + string \<times> string" where
  "getScheme_scan seen [] = Inr ([], seen)"
| "getScheme_scan seen (c # cs) =
     (if isLetter c then getScheme_scan (seen @ [c]) cs
      else if isSchemeByte c then
        (if seen = [] then Inr ([], c # cs) else getScheme_scan (seen @ [c]) cs)
      else if c = CHR '':'' then
        (if seen = [] then Inl ''missing protocol scheme'' else Inr (seen, cs))
      else Inr ([], seen @ c # cs))"

definition getScheme :: "string \<Rightarrow> string + string \<times> string" where
  "getScheme rawURL = getScheme_scan [] rawURL"

definition net_url_parse :: "string \<Rightarrow> string + URL" where
  "net_url_parse rawURL =
     (if \<exists>c \<in> set rawURL. c < CHR 0x20 \<or> c = CHR 0x7F
      then Inl ''net/url: invalid control character in URL''
      else if rawURL = ''*'' then Inr (empty_URL\<lparr>Path := ''*''\<rparr>)
      else case getScheme rawURL of
        Inl err \<Rightarrow> Inl err
      | Inr (scheme0, rest0) \<Rightarrow>
          let scheme = ToLower scheme0;
              force = (suffix ''?'' rest0 \<and> count_list rest0 CHR ''?'' = 1);
              rest = (if force then butlast rest0 else fst (Cut rest0 CHR ''?''));
              query = (if force then [] else fst (snd (Cut rest0 CHR ''?'')));
              url = empty_URL\<lparr>Scheme := scheme, ForceQuery := force, RawQuery := query\<rparr>
          in if \<not> prefix ''/'' rest \<and> scheme \<noteq> [] then Inr (url\<lparr>Opaque := rest\<rparr>)
             else if \<not> prefix ''/'' rest \<and> CHR '':'' \<in> set (fst (Cut rest CHR ''/''))
               then Inl ''first path segment in URL cannot contain colon''
             else if (scheme \<noteq> [] \<or> \<not> prefix ''///'' rest) \<and> prefix ''//'' rest
               then Inr (url\<lparr>Host := takeWhile (\<lambda>c. c \<noteq> CHR ''/'') (drop 2 rest),
                              Path := dropWhile (\<lambda>c. c \<noteq> CHR ''/'') (drop 2 rest)\<rparr>)
             else Inr (url\<lparr>Path := rest\<rparr>))"

definition net_url_Parse :: "string \<Rightarrow> string + URL" where
  "net_url_Parse rawURL =
     (case Cut rawURL CHR ''#'' of
        (u, frag, found) \<Rightarrow>
          (case net_url_parse u of
             Inl err \<Rightarrow> Inl err
           | Inr url \<Rightarrow> Inr (url\<lparr>Fragment := frag\<rparr>)))"

fun split_slash :: "string \<Rightarrow> string \<Rightarrow> string list" where
  "split_slash cur [] = [cur]"
| "split_slash cur (c # cs) =
     (if c = CHR ''/'' then cur # split_slash [] cs else split_slash (cur @ [c]) cs)"

definition upto_last_slash :: "string \<Rightarrow> string" where
  "upto_last_slash s = rev (dropWhile (\<lambda>c. c \<noteq> CHR ''/'') (rev s))"

definition dot_step :: "string \<times> bool \<Rightarrow> string \<Rightarrow> string \<times> bool" where
  "dot_step acc elem =
     (case acc of (dst, first) \<Rightarrow>
        if elem = ''.'' then (dst, False)
        else if elem = ''..'' then
          (let str = drop 1 dst in
           if CHR ''/'' \<in> set str then (''/'' @ butlast (upto_last_slash str), first)
           else (''/'', True))
        else ((if first then dst else dst @ ''/'') @ elem, False))"

definition resolvePath :: "string \<Rightarrow> string \<Rightarrow> string" where
  "resolvePath base ref =
     (let full = (if ref = [] then base
                  else if hd ref \<noteq> CHR ''/'' then upto_last_slash base @ ref
                  else ref) in
      if full = [] then []
      else let elems = split_slash [] full;
               dst = fst (foldl dot_step (''/'', True) elems);
               r = (if last elems = ''.'' \<or> last elems = ''..'' then dst @ ''/'' else dst)
           in if length r > 1 \<and> r ! 1 = CHR ''/'' then drop 1 r else r)"

definition net_url_ResolveReference :: "URL \<Rightarrow> URL \<Rightarrow> URL" where
  "net_url_ResolveReference u ref =
     (let url = ref\<lparr>Scheme := (if Scheme ref = [] then Scheme u else Scheme ref)\<rparr> in
      if Scheme ref \<noteq> [] \<or> Host ref \<noteq> [] then url\<lparr>Path := resolvePath (Path ref) []\<rparr>
      else if Opaque ref \<noteq> [] then url\<lparr>Host := [], Path := []\<rparr>
      else let url1 = (if Path ref = [] \<and> \<not> ForceQuery ref \<and> RawQuery ref = []
                       then url\<lparr>RawQuery := RawQuery u,
                                Fragment := (if Fragment ref = [] then Fragment u else Fragment ref)\<rparr>
                       else url) in
        if Path ref = [] \<and> Opaque u \<noteq> [] then url1\<lparr>Opaque := Opaque u, Host := [], Path := []\<rparr>
        else url1\<lparr>Host := Host u, Path := resolvePath (Path u) (Path ref)\<rparr>)"

definition net_url_String :: "URL \<Rightarrow> string" where
  "net_url_String u =
     (let buf = (if Scheme u \<noteq> [] then Scheme u @ '':'' else []);
          buf1 = (if Opaque u \<noteq> [] then buf @ Opaque u
                  else let b1 = buf @ (if Scheme u \<noteq> [] \<or> Host u \<noteq> []
                                       then (if Host u \<noteq> [] \<or> Path u \<noteq> [] then ''//'' else []) @ Host u
                                       else []);
                           b2 = b1 @ (if Path u \<noteq> [] \<and> hd (Path u) \<noteq> CHR ''/'' \<and> Host u \<noteq> []
                                      then ''/'' else []);
                           b3 = b2 @ (if b2 = [] \<and> CHR '':'' \<in> set (fst (Cut (Path u) CHR ''/''))
                                      then ''./'' else [])
                       in b3 @ Path u);
          buf2 = buf1 @ (if ForceQuery u \<or> RawQuery u \<noteq> [] then ''?'' @ RawQuery u else [])
      in buf2 @ (if Fragment u \<noteq> [] then ''#'' @ Fragment u else []))"

text \<open>
  \<open>offline\<close> has no network; \<open>test_site\<close> is a site of four pages, the root
  linking to \<open>/d1\<close>, \<open>/d2\<close>, \<open>/d3\<close> and to a page on another host.
\<close>

definition offline :: Env where
  "offline = \<lparr>http_Get = (\<lambda>u. Inl ''no network''), html_Parse = (\<lambda>b. Inl ''no parser''),
      url_Parse = net_url_Parse, url_ResolveReference = net_url_ResolveReference,
      url_String = net_url_String\<rparr>"

definition page_of :: "string list \<Rightarrow> Node" where
  "page_of hrefs =
     Node DocumentNode [] []
       [Node ElementNode ''html'' []
          [Node ElementNode ''body'' []
             (map (\<lambda>h. Node ElementNode ''a'' [\<lparr>Key = ''href'', Val = h\<rparr>] []) hrefs)]]"

definition ok_page :: "string \<Rightarrow> string + Response" where
  "ok_page body = Inr \<lparr>StatusCode = 200, Status = ''200 OK'', Body = (body, None)\<rparr>"

definition test_site :: Env where
  "test_site =
     \<lparr>http_Get = (\<lambda>u.
        if u = ''http://site.test/'' then ok_page ''root''
        else if u = ''http://site.test/d1'' then ok_page ''d1''
        else if u = ''http://site.test/d2'' then ok_page ''d2''
        else if u = ''http://site.test/d3'' then ok_page ''d3''
        else Inr \<lparr>StatusCode = 404, Status = ''404 Not Found'', Body = ([], None)\<rparr>),
      html_Parse = (\<lambda>b.
        if b = ''root'' then Inr (page_of [''/d1'', ''/d2'', ''/d3'', ''http://example.com/evil''])
        else if b = ''d1'' then Inr (page_of [''/d2''])
        else if b = ''d2'' then Inr (page_of [''/d3''])
        else Inr (page_of [])),
      url_Parse = net_url_Parse, url_ResolveReference = net_url_ResolveReference,
      url_String = net_url_String\<rparr>"




definition padded_page :: Node where
  "padded_page =
     Node DocumentNode [] []
       [Node ElementNode ''html'' []
          [Node ElementNode ''head'' []
             [Node ElementNode ''script'' [] [Node TextNode ''var x=1'' [] []]],
           Node ElementNode ''body'' []
             [Node ElementNode ''a'' [\<lparr>Key = ''href'', Val = '' a.html ''\<rparr>] [Node TextNode ''A'' [] []],
              Node ElementNode ''a'' [\<lparr>Key = ''href'', Val = []\<rparr>] [],
              Node ElementNode ''link'' [\<lparr>Key = ''href'', Val = ''s.css''\<rparr>] [],
              Node ElementNode ''A'' [\<lparr>Key = ''href'', Val = ''/abs/b.html#frag''\<rparr>] []]]]"

section \<open>The SQLite indexer\<close>

text \<open>
  \<open>SQLiteIndexer\<close> keeps the index in three tables: \<open>urls(id, name)\<close>,
  \<open>words(id, word)\<close> and \<open>hits(url_id, word_id, count)\<close> with the primary key
  \<open>(url_id, word_id)\<close>.  A table is the list of its rows; a \<open>NULL\<close> word id is
  \<open>None\<close>.  The statements are modelled as they act on the tables, for a
  database that executes every statement (I/O failures are not modelled); the
  state starts from empty tables, as with \<open>:memory:\<close> or a new file.
\<close>

record SQLiteIndexer =
  tbl_urls :: "(nat \<times> string) list"
  tbl_words :: "(nat \<times> string) list"
  tbl_hits :: "(nat \<times> nat option \<times> nat) list"
  sq_stop :: "string set"

definition NewSQLiteIndexer :: "string set option \<Rightarrow> SQLiteIndexer" where
  "NewSQLiteIndexer stopo =
     \<lparr>tbl_urls = [], tbl_words = [], tbl_hits = [],
      sq_stop = (case stopo of None \<Rightarrow> DefaultStopwords | Some st \<Rightarrow> st)\<rparr>"

text \<open>
  The SQL statements of \<open>AddDocument\<close>.  A new row of a table with an
  \<open>INTEGER PRIMARY KEY\<close> gets the largest id in use plus one.
  \<open>INSERT OR IGNORE\<close> leaves the table alone when the unique name is present;
  \<open>SELECT id ... WHERE name = ?\<close> is \<open>select_id\<close>; \<open>INSERT OR REPLACE\<close> on
  \<open>hits\<close> deletes the row with the same key, if any, and inserts the new one.
\<close>

definition next_rowid :: "(nat \<times> 'a) list \<Rightarrow> nat" where
  "next_rowid rows = Suc (fold max (map fst rows) 0)"

definition insert_or_ignore :: "string \<Rightarrow> (nat \<times> string) list \<Rightarrow> (nat \<times> string) list" where
  "insert_or_ignore v rows =
     (if v \<in> snd ` set rows then rows else rows @ [(next_rowid rows, v)])"

definition select_id :: "(nat \<times> string) list \<Rightarrow> string \<Rightarrow> nat option" where
  "select_id rows v = map_option fst (find (\<lambda>r. snd r = v) rows)"

definition insert_or_replace_hit ::
  "nat \<Rightarrow> nat option \<Rightarrow> nat \<Rightarrow> (nat \<times> nat option \<times> nat) list \<Rightarrow> (nat \<times> nat option \<times> nat) list" where
  "insert_or_replace_hit url_id word_id cnt rows =
     filter (\<lambda>r. \<not> (fst r = url_id \<and> word_id \<noteq> None \<and> fst (snd r) = word_id)) rows
       @ [(url_id, word_id, cnt)]"

text \<open>
  \<open>AddDocument\<close>: the word loop fills the map \<open>wordCount\<close> (an association
  list; the map \<open>seen\<close> is written but never read), and the second loop stores
  one word and one hit per entry.  The result is the new state and the error;
  the only error of the model is a failed \<open>Scan\<close> of the URL id, which rolls the
  transaction back.
\<close>

definition count_word ::
  "(string \<Rightarrow> string) \<Rightarrow> (string \<Rightarrow> string) \<Rightarrow> string set \<Rightarrow>
   (string \<times> nat) list \<Rightarrow> string \<Rightarrow> (string \<times> nat) list" where
  "count_word lower stem st wordCount w =
     (if w = [] then wordCount
      else let lw = lower w in
        if lw \<in> st then wordCount
        else let s = stem lw in
          if s = [] then wordCount
          else map_default s 1 Suc wordCount)"

definition put_word ::
  "nat \<Rightarrow> (nat \<times> string) list \<times> (nat \<times> nat option \<times> nat) list \<Rightarrow> string \<times> nat \<Rightarrow>
   (nat \<times> string) list \<times> (nat \<times> nat option \<times> nat) list" where
  "put_word urlID tbls wc =
     (case tbls of (ws, hs) \<Rightarrow>
        let ws1 = insert_or_ignore (fst wc) ws
        in (ws1, insert_or_replace_hit urlID (select_id ws1 (fst wc)) (snd wc) hs))"

definition SQLite_AddDocument ::
  "(string \<Rightarrow> string) \<Rightarrow> (string \<Rightarrow> string) \<Rightarrow> SQLiteIndexer \<Rightarrow> string \<Rightarrow> string list \<Rightarrow>
   SQLiteIndexer \<times> string option" where
  "SQLite_AddDocument lower stem idx url ws =
     (let us1 = insert_or_ignore url (tbl_urls idx) in
      case select_id us1 url of
        None \<Rightarrow> (idx, Some ''sql: no rows in result set'')
      | Some urlID \<Rightarrow>
          (case foldl (put_word urlID) (tbl_words idx, tbl_hits idx)
                  (foldl (count_word lower stem (sq_stop idx)) [] ws) of
             (ws1, hs1) \<Rightarrow> (idx\<lparr>tbl_urls := us1, tbl_words := ws1, tbl_hits := hs1\<rparr>, None)))"

text \<open>
  \<open>Search\<close>: \<open>sq_df\<close> is the \<open>COUNT(*)\<close> of the join of hits and words for the
  stem, \<open>sq_rows\<close> the rows \<open>(name, count, total_words)\<close> of the three-table
  join, where \<open>total_words\<close> is the sum of the counts of the URL, and
  \<open>sq_collect\<close> the loop over the rows.
\<close>

definition sq_df :: "SQLiteIndexer \<Rightarrow> string \<Rightarrow> nat" where
  "sq_df idx s =
     length [h. h \<leftarrow> tbl_hits idx, w \<leftarrow> tbl_words idx, fst (snd h) = Some (fst w), snd w = s]"

definition sq_rows :: "SQLiteIndexer \<Rightarrow> string \<Rightarrow> (string \<times> nat \<times> nat) list" where
  "sq_rows idx s =
     [(snd u, snd (snd h), sum_list [snd (snd h2). h2 \<leftarrow> tbl_hits idx, fst h2 = fst u]).
        u \<leftarrow> tbl_urls idx, h \<leftarrow> tbl_hits idx, fst u = fst h,
        w \<leftarrow> tbl_words idx, Some (fst w) = fst (snd h), snd w = s]"

fun sq_collect :: "real \<Rightarrow> (string \<times> nat \<times> nat) list \<Rightarrow> Hit list" where
  "sq_collect idf [] = []"
| "sq_collect idf ((url, cnt, totalWords) # rows) =
     (if totalWords > 0
      then \<lparr>URL = url, Score = (real cnt / real totalWords) * idf\<rparr> # sq_collect idf rows
      else sq_collect idf rows)"

definition SQLite_Search ::
  "(string \<Rightarrow> string) \<Rightarrow> (string \<Rightarrow> string) \<Rightarrow> SQLiteIndexer \<Rightarrow> string \<Rightarrow> Hit list" where
  "SQLite_Search lower stem idx term =
     (if term = [] then []
      else let q = lower term in
        if q \<in> sq_stop idx then []
        else let s = stem q; totalDocs = length (tbl_urls idx) in
          if totalDocs = 0 then []
          else let d = sq_df idx s in
            if d = 0 then []
            else let idf = ln (real totalDocs / real d) in
              sort_hits (sq_collect idf (sq_rows idx s)))"

definition sq_build ::
  "(string \<Rightarrow> string) \<Rightarrow> (string \<Rightarrow> string) \<Rightarrow> string set \<Rightarrow> (string \<times> string list) list \<Rightarrow>
   SQLiteIndexer" where
  "sq_build lower stem st calls =
     foldl (\<lambda>idx c. fst (SQLite_AddDocument lower stem idx (fst c) (snd c)))
       (NewSQLiteIndexer (Some st)) calls"

text \<open>
  Every hit row refers to a URL row and has a positive count.
\<close>

definition hits_ok :: "SQLiteIndexer \<Rightarrow> bool" where
  "hits_ok idx \<longleftrightarrow> (\<forall>h \<in> set (tbl_hits idx). fst h \<in> fst ` set (tbl_urls idx) \<and> 1 \<le> snd (snd h))"

section \<open>The second SQLite index\<close>

text \<open>
  \<open>SQLiteIndexV2\<close> has the tables \<open>documents(id, url, word_count)\<close>,
  \<open>vocabulary(id, term, document_frequency)\<close> and
  \<open>term_frequencies(id, doc_id, term_id, frequency)\<close>, and the counter \<open>N\<close>.
  \<open>Add\<close> inserts the document with word count 0 and then updates the word
  count to \<open>len(words)\<close>; the model inserts the row with that count at once.
  For each term it creates the vocabulary row with document frequency 1 or
  increments it, and inserts or updates the term frequency.
\<close>

record SQLiteIndexV2 =
  documents :: "(nat \<times> string \<times> nat) list"
  vocabulary :: "(nat \<times> string \<times> nat) list"
  term_frequencies :: "(nat \<times> nat \<times> nat \<times> nat) list"
  v2_N :: nat
  v2_stop :: "string set"

definition NewSQLiteIndexV2 :: "string set option \<Rightarrow> SQLiteIndexV2" where
  "NewSQLiteIndexV2 stopo =
     \<lparr>documents = [], vocabulary = [], term_frequencies = [], v2_N = 0,
      v2_stop = (case stopo of None \<Rightarrow> DefaultStopwords | Some st \<Rightarrow> st)\<rparr>"

definition v2_select_id :: "(nat \<times> string \<times> nat) list \<Rightarrow> string \<Rightarrow> nat option" where
  "v2_select_id rows v = map_option fst (find (\<lambda>r. fst (snd r) = v) rows)"

definition v2_word ::
  "(string \<Rightarrow> string) \<Rightarrow> (string \<Rightarrow> string) \<Rightarrow> string set \<Rightarrow>
   (string \<times> nat) list \<Rightarrow> string \<Rightarrow> (string \<times> nat) list" where
  "v2_word lower stem st termFreq w =
     (if w = [] then termFreq
      else let lw = lower w in
        if lw \<in> st then termFreq
        else let s = stem lw in
          if s = [] then termFreq
          else map_default s 1 Suc termFreq)"

definition upsert_frequency ::
  "nat \<Rightarrow> nat \<Rightarrow> nat \<Rightarrow> (nat \<times> nat \<times> nat \<times> nat) list \<Rightarrow> (nat \<times> nat \<times> nat \<times> nat) list" where
  "upsert_frequency docID termID freq rows =
     (if \<exists>r \<in> set rows. fst (snd r) = docID \<and> fst (snd (snd r)) = termID
      then map (\<lambda>r. if fst (snd r) = docID \<and> fst (snd (snd r)) = termID
                      then (fst r, docID, termID, freq) else r) rows
      else rows @ [(next_rowid rows, docID, termID, freq)])"

definition v2_term ::
  "nat \<Rightarrow> (nat \<times> string \<times> nat) list \<times> (nat \<times> nat \<times> nat \<times> nat) list \<Rightarrow> string \<times> nat \<Rightarrow>
   (nat \<times> string \<times> nat) list \<times> (nat \<times> nat \<times> nat \<times> nat) list" where
  "v2_term docID tbls entry =
     (case tbls of (voc, tfs) \<Rightarrow>
        (case v2_select_id voc (fst entry) of
           None \<Rightarrow>
             (voc @ [(next_rowid voc, fst entry, 1)],
              upsert_frequency docID (next_rowid voc) (snd entry) tfs)
         | Some termID \<Rightarrow>
             (map (\<lambda>r. if fst (snd r) = fst entry then (fst r, fst (snd r), snd (snd r) + 1) else r) voc,
              upsert_frequency docID termID (snd entry) tfs)))"

definition V2_Add ::
  "(string \<Rightarrow> string) \<Rightarrow> (string \<Rightarrow> string) \<Rightarrow> SQLiteIndexV2 \<Rightarrow> string \<Rightarrow> string list \<Rightarrow>
   SQLiteIndexV2" where
  "V2_Add lower stem idx doc ws =
     (case v2_select_id (documents idx) doc of
        Some docID \<Rightarrow> idx
      | None \<Rightarrow>
          let docID = next_rowid (documents idx);
              termFreq = foldl (v2_word lower stem (v2_stop idx)) [] ws;
              docs1 = documents idx @ [(docID, doc, length ws)]
          in case foldl (v2_term docID) (vocabulary idx, term_frequencies idx) termFreq of
               (voc1, tfs1) \<Rightarrow>
                 idx\<lparr>documents := docs1, vocabulary := voc1, term_frequencies := tfs1,
                     v2_N := v2_N idx + 1\<rparr>)"

definition v2_rows :: "SQLiteIndexV2 \<Rightarrow> string \<Rightarrow> (string \<times> nat \<times> nat \<times> nat) list" where
  "v2_rows idx s =
     [(fst (snd d), snd (snd (snd f)), snd (snd d), snd (snd v)).
        v \<leftarrow> vocabulary idx, fst (snd v) = s,
        f \<leftarrow> term_frequencies idx, fst v = fst (snd (snd f)),
        d \<leftarrow> documents idx, fst (snd f) = fst d]"

fun v2_collect :: "nat \<Rightarrow> (string \<times> nat \<times> nat \<times> nat) list \<Rightarrow> Hit list" where
  "v2_collect n [] = []"
| "v2_collect n ((url, frequency, wordCount, docFreq) # rows) =
     (if wordCount > 0 \<and> docFreq > 0
      then \<lparr>URL = url,
            Score = (real frequency / real wordCount) * ln (real n / real docFreq)\<rparr>
           # v2_collect n rows
      else v2_collect n rows)"

definition V2_SearchTFIDF ::
  "(string \<Rightarrow> string) \<Rightarrow> (string \<Rightarrow> string) \<Rightarrow> SQLiteIndexV2 \<Rightarrow> string \<Rightarrow> Hit list" where
  "V2_SearchTFIDF lower stem idx term =
     (if term = [] \<or> v2_N idx = 0 then []
      else let q = lower term in
        if q \<in> v2_stop idx then []
        else sort_hits (v2_collect (v2_N idx) (v2_rows idx (stem q))))"

definition v2_build ::
  "(string \<Rightarrow> string) \<Rightarrow> (string \<Rightarrow> string) \<Rightarrow> string set \<Rightarrow> (string \<times> string list) list \<Rightarrow>
   SQLiteIndexV2" where
  "v2_build lower stem st calls =
     foldl (\<lambda>idx c. V2_Add lower stem idx (fst c) (snd c)) (NewSQLiteIndexV2 (Some st)) calls"

section \<open>Example corpora\<close>


definition sea_corpus :: "(string \<times> string list) list" where
  "sea_corpus = [(''a.html'', [''whale'', ''ship'', ''the'']), (''b.html'', [''sea''])]"

definition whale_doc :: "(string \<times> string list) list" where
  "whale_doc = [(''doc1'', [''whale'', ''whale'', ''ship'', ''and'', ''the''])]"

text \<open>
  A URL added twice with different words, and a corpus with a stopword.
\<close>

definition readd_calls :: "(string \<times> string list) list" where
  "readd_calls = [(''d.html'', [''whale'']), (''d.html'', [''ship''])]"

definition stopword_calls :: "(string \<times> string list) list" where
  "stopword_calls = [(''a.html'', [''the'', ''whale'']), (''b.html'', [''ship''])]"

section \<open>Properties of the comparator and of the sort\<close>






lemma set_insert_hit: "set (insert_hit h xs) = insert h (set xs)"
  by (induction xs) auto

lemma set_sort_hits: "set (sort_hits hs) = set hs"
  by (induction hs) (auto simp: sort_hits_def set_insert_hit)

lemma length_insert_hit: "length (insert_hit h xs) = Suc (length xs)"
  by (induction xs) auto

lemma length_sort_hits: "length (sort_hits hs) = length hs"
  by (induction hs) (auto simp: sort_hits_def length_insert_hit)






section \<open>Properties of the in-memory indexer\<close>

lemma add_token_simp:
  "add_token doc (t, seen, kept) s =
     (t(s := map_default doc 1 Suc (t s)), (if s \<in> set seen then seen else seen @ [s]), kept + 1)"
  by (simp add: add_token_def)

lemma tokens_Nil: "kept_tokens lower stem st [] = []"
  by (simp add: kept_tokens_def)

lemma tokens_Cons:
  "kept_tokens lower stem st (w # ws) =
     (if w = [] \<or> lower w \<in> st \<or> stem (lower w) = [] then kept_tokens lower stem st ws
      else stem (lower w) # kept_tokens lower stem st ws)"
  by (simp add: kept_tokens_def)

lemma add_word_token:
  "add_word lower stem st doc acc w =
     (if w = [] \<or> lower w \<in> st \<or> stem (lower w) = [] then acc
      else add_token doc acc (stem (lower w)))"
  by (cases acc) (simp add: add_word_def add_token_def Let_def)

lemma foldl_add_word:
  "foldl (add_word lower stem st doc) acc ws = foldl (add_token doc) acc (kept_tokens lower stem st ws)"
  by (induction ws arbitrary: acc) (simp_all add: tokens_Nil tokens_Cons add_word_token)

lemma foldl_add_token_kept:
  "snd (snd (foldl (add_token doc) (t, seen, kept) ts)) = kept + length ts"
  by (induction ts arbitrary: t seen kept) (simp_all add: add_token_simp)

lemma foldl_add_token_seen:
  "set (fst (snd (foldl (add_token doc) (t, seen, kept) ts))) = set seen \<union> set ts"
  by (induction ts arbitrary: t seen kept) (auto simp: add_token_simp)

lemma foldl_add_token_distinct:
  "distinct seen \<Longrightarrow> distinct (fst (snd (foldl (add_token doc) (t, seen, kept) ts)))"
  by (induction ts arbitrary: t seen kept) (auto simp: add_token_simp)

lemma foldl_add_token_tf:
  "fst (foldl (add_token doc) (t, seen, kept) ts) s =
     ((map_default doc (Suc 0) Suc) ^^ count_list ts s) (t s)"
proof (induction ts arbitrary: t seen kept)
  case Nil
  then show ?case by simp
next
  case (Cons a ts)
  show ?case
    by (simp add: add_token_simp Cons funpow_swap1)
qed

lemma distinct_funpow_map_default:
  "distinct (map fst l) \<Longrightarrow> distinct (map fst (((map_default doc (Suc 0) Suc) ^^ n) l))"
  by (induction n) (simp_all add: distinct_map_default)

lemma map_of_funpow_map_default:
  "map_of (((map_default doc (Suc 0) Suc) ^^ n) l) d =
     (if n = 0 \<or> d \<noteq> doc then map_of l d
      else Some (case map_of l doc of None \<Rightarrow> n | Some k \<Rightarrow> k + n))"
proof (induction n arbitrary: d)
  case 0
  then show ?case by simp
next
  case (Suc n)
  show ?case
    by (cases "n = 0") (simp_all add: Suc map_of_map_default split: option.splits)
qed

lemma foldl_incr:
  "distinct seen \<Longrightarrow>
   foldl (\<lambda>d s. d(s := d s + 1)) (d0 :: string \<Rightarrow> nat) seen s = d0 s + (if s \<in> set seen then 1 else 0)"
  by (induction seen arbitrary: d0) auto

lemma InMem_AddDocument_dup:
  "docLen idx doc \<noteq> None \<Longrightarrow> InMem_AddDocument lower stem idx doc ws = idx"
  by (simp add: InMem_AddDocument_def)

lemma InMem_AddDocument_new:
  assumes "docLen idx doc = None"
  shows "InMem_AddDocument lower stem idx doc ws =
     idx\<lparr>tf := (\<lambda>s. ((map_default doc (Suc 0) Suc) ^^ count_list (kept_tokens lower stem (stop idx) ws) s) (tf idx s)),
         df := (\<lambda>s. df idx s + (if s \<in> set (kept_tokens lower stem (stop idx) ws) then 1 else 0)),
         docLen := (docLen idx)(doc \<mapsto> length (kept_tokens lower stem (stop idx) ws)),
         N := N idx + 1\<rparr>"
proof -
  let ?ts = "kept_tokens lower stem (stop idx) ws"
  obtain t seen kept where r: "foldl (add_token doc) (tf idx, [], 0) ?ts = (t, seen, kept)"
    by (cases "foldl (add_token doc) (tf idx, [], 0) ?ts") auto
  have k: "kept = length ?ts"
    using foldl_add_token_kept [of doc "tf idx" "[]" 0 ?ts] by (simp add: r)
  have s: "set seen = set ?ts"
    using foldl_add_token_seen [of doc "tf idx" "[]" 0 ?ts] by (simp add: r)
  have d: "distinct seen"
    using foldl_add_token_distinct [of "[]" doc "tf idx" 0 ?ts] by (simp add: r)
  have t: "t = (\<lambda>s. ((map_default doc (Suc 0) Suc) ^^ count_list ?ts s) (tf idx s))"
    using foldl_add_token_tf [of doc "tf idx" "[]" 0 ?ts] by (auto simp: r)
  have f: "foldl (\<lambda>d s. d(s := Suc (d s))) (df idx) seen =
             (\<lambda>s. df idx s + (if s \<in> set ?ts then 1 else 0))"
    using foldl_incr [OF d, of "df idx"] by (auto simp: s)
  show ?thesis
    using assms by (simp add: InMem_AddDocument_def foldl_add_word r k t f)
qed

lemma build_Nil: "build lower stem st [] = NewInMemIndexer (Some st)"
  by (simp add: build_def)

lemma build_snoc:
  "build lower stem st (calls @ [c]) =
     InMem_AddDocument lower stem (build lower stem st calls) (fst c) (snd c)"
  by (simp add: build_def)

lemma build_stop: "stop (build lower stem st calls) = st"
proof (induction calls rule: rev_induct)
  case Nil
  then show ?case by (simp add: build_Nil NewInMemIndexer_def)
next
  case (snoc c calls)
  then show ?case
    by (cases "docLen (build lower stem st calls) (fst c)")
       (simp_all add: build_snoc InMem_AddDocument_new InMem_AddDocument_dup)
qed

declare map_of_append [simp del]

lemma map_of_snoc:
  "map_of (calls @ [c]) d =
     (case map_of calls d of Some x \<Rightarrow> Some x | None \<Rightarrow> if d = fst c then Some (snd c) else None)"
  by (cases c) (simp add: map_of_append map_add_def split: option.splits)

lemma build_docLen:
  "docLen (build lower stem st calls) u =
     map_option (\<lambda>ws. length (kept_tokens lower stem st ws)) (map_of calls u)"
proof (induction calls arbitrary: u rule: rev_induct)
  case Nil
  then show ?case by (simp add: build_Nil NewInMemIndexer_def)
next
  case (snoc c calls)
  show ?case
  proof (cases "docLen (build lower stem st calls) (fst c)")
    case None
    then have "map_of calls (fst c) = None" by (simp add: snoc)
    with None show ?thesis
      by (simp add: build_snoc InMem_AddDocument_new build_stop map_of_snoc snoc split: option.splits)
  next
    case (Some k)
    then obtain x where "map_of calls (fst c) = Some x" by (auto simp: snoc)
    with Some show ?thesis
      by (simp add: build_snoc InMem_AddDocument_dup map_of_snoc snoc split: option.splits)
  qed
qed

lemma build_docLen_None: "docLen (build lower stem st calls) u = None \<longleftrightarrow> map_of calls u = None"
  by (simp add: build_docLen)

lemma dom_map_of_snoc:
  "dom (map_of (calls @ [c])) = insert (fst c) (dom (map_of calls))"
  by (auto simp: map_of_snoc dom_def split: option.splits)

lemma build_N: "N (build lower stem st calls) = card (dom (map_of calls))"
proof (induction calls rule: rev_induct)
  case Nil
  then show ?case by (simp add: build_Nil NewInMemIndexer_def)
next
  case (snoc c calls)
  show ?case
  proof (cases "docLen (build lower stem st calls) (fst c)")
    case None
    then have "fst c \<notin> dom (map_of calls)" by (simp add: build_docLen_None dom_def)
    with None show ?thesis
      by (simp add: build_snoc InMem_AddDocument_new dom_map_of_snoc snoc finite_dom_map_of)
  next
    case (Some k)
    then have "fst c \<in> dom (map_of calls)" by (auto simp: build_docLen dom_def)
    with Some show ?thesis
      by (simp add: build_snoc InMem_AddDocument_dup dom_map_of_snoc snoc insert_absorb)
  qed
qed

lemma build_tf_distinct: "distinct (map fst (tf (build lower stem st calls) s))"
proof (induction calls rule: rev_induct)
  case Nil
  then show ?case by (simp add: build_Nil NewInMemIndexer_def)
next
  case (snoc c calls)
  then show ?case
    by (cases "docLen (build lower stem st calls) (fst c)")
       (simp_all add: build_snoc InMem_AddDocument_new InMem_AddDocument_dup
          distinct_funpow_map_default)
qed

lemma build_tf:
  "map_of (tf (build lower stem st calls) s) d = spec_posting lower stem st calls s d"
proof (induction calls arbitrary: d rule: rev_induct)
  case Nil
  then show ?case by (simp add: build_Nil NewInMemIndexer_def spec_posting_def)
next
  case (snoc c calls)
  show ?case
  proof (cases "docLen (build lower stem st calls) (fst c)")
    case None
    then have n: "map_of calls (fst c) = None" by (simp add: build_docLen_None)
    then have p: "spec_posting lower stem st calls s (fst c) = None" by (simp add: spec_posting_def)
    show ?thesis
      using None n p
      by (auto simp add: build_snoc InMem_AddDocument_new build_stop map_of_funpow_map_default
          snoc spec_posting_def map_of_snoc count_list_0_iff split: option.splits)
  next
    case (Some k)
    then obtain x where "map_of calls (fst c) = Some x" by (auto simp: build_docLen)
    with Some show ?thesis
      by (simp add: build_snoc InMem_AddDocument_dup snoc spec_posting_def map_of_snoc split: option.splits)
  qed
qed

lemma containing_subset: "docs_containing lower stem st calls s \<subseteq> dom (map_of calls)"
  by (auto simp: docs_containing_def)

lemma finite_containing: "finite (docs_containing lower stem st calls s)"
  using containing_subset finite_dom_map_of by (rule finite_subset)

lemma containing_snoc_new:
  "map_of calls (fst c) = None \<Longrightarrow>
   docs_containing lower stem st (calls @ [c]) s =
     (if s \<in> set (kept_tokens lower stem st (snd c))
      then insert (fst c) (docs_containing lower stem st calls s)
      else docs_containing lower stem st calls s)"
  by (auto simp: docs_containing_def map_of_snoc split: option.splits if_splits)

lemma containing_snoc_dup:
  "map_of calls (fst c) = Some x \<Longrightarrow>
   docs_containing lower stem st (calls @ [c]) s = docs_containing lower stem st calls s"
  by (auto simp: docs_containing_def map_of_snoc split: option.splits if_splits)

lemma build_df: "df (build lower stem st calls) s = card (docs_containing lower stem st calls s)"
proof (induction calls rule: rev_induct)
  case Nil
  then show ?case by (simp add: build_Nil NewInMemIndexer_def docs_containing_def)
next
  case (snoc c calls)
  show ?case
  proof (cases "docLen (build lower stem st calls) (fst c)")
    case None
    then have n: "map_of calls (fst c) = None" by (simp add: build_docLen_None)
    then have "fst c \<notin> docs_containing lower stem st calls s" by (simp add: docs_containing_def)
    with None n show ?thesis
      by (simp add: build_snoc InMem_AddDocument_new build_stop snoc containing_snoc_new
          finite_containing)
  next
    case (Some k)
    then obtain x where "map_of calls (fst c) = Some x" by (auto simp: build_docLen)
    with Some show ?thesis
      by (simp add: build_snoc InMem_AddDocument_dup snoc containing_snoc_dup)
  qed
qed

lemma build_df_le_N: "df (build lower stem st calls) s \<le> N (build lower stem st calls)"
  by (simp add: build_df build_N card_mono containing_subset finite_dom_map_of)

lemma collect_hits_Cons:
  "collect_hits idx idf ((d, c) # ps) =
     (if den_of idx d = 0 then collect_hits idx idf ps
      else \<lparr>URL = d, Score = (real c / real (den_of idx d)) * idf\<rparr> # collect_hits idx idf ps)"
  by (simp add: den_of_def Let_def)


lemma set_hits:
  "h \<in> set (collect_hits idx idf l) \<longleftrightarrow>
     (\<exists>d c. (d, c) \<in> set l \<and> den_of idx d \<noteq> 0 \<and>
        h = \<lparr>URL = d, Score = (real c / real (den_of idx d)) * idf\<rparr>)"
proof (induction l)
  case Nil
  then show ?case by simp
next
  case (Cons p l)
  obtain a b where p: "p = (a, b)" by (cases p)
  show ?case
    unfolding p collect_hits_Cons
    by (cases "den_of idx a = 0") (auto simp: Cons simp del: collect_hits.simps(2))
qed

lemma InMem_Search_cases:
  "InMem_Search lower stem idx term =
     (if term = [] \<or> N idx = 0 \<or> lower term \<in> stop idx \<or> df idx (stem (lower term)) = 0 then []
      else sort_hits (collect_hits idx (ln (real (N idx) / real (df idx (stem (lower term)))))
                                 (tf idx (stem (lower term)))))"
  by (simp add: InMem_Search_def Let_def)

lemma build_den:
  "den_of (build lower stem st calls) d =
     (case map_of calls d of None \<Rightarrow> 0 | Some ws \<Rightarrow> length (kept_tokens lower stem st ws))"
  by (simp add: den_of_def build_docLen split: option.splits)

lemma build_tf_mem:
  "(d, c) \<in> set (tf (build lower stem st calls) s) \<longleftrightarrow> spec_posting lower stem st calls s d = Some c"
  using build_tf_distinct [of lower stem st calls s] build_tf [of lower stem st calls s d]
  by (metis map_of_eq_Some_iff)



lemma InMem_Search_score:
  assumes "h \<in> set (InMem_Search lower stem (build lower stem st calls) term)"
  shows "\<exists>ws. map_of calls (URL h) = Some ws \<and>
           stem (lower term) \<in> set (kept_tokens lower stem st ws) \<and>
           Score h = real (count_list (kept_tokens lower stem st ws) (stem (lower term)))
                       / real (length (kept_tokens lower stem st ws))
                     * ln (real (card (dom (map_of calls)))
                           / real (card (docs_containing lower stem st calls (stem (lower term)))))"
proof -
  let ?idx = "build lower stem st calls" and ?s = "stem (lower term)"
  from assms obtain d c where
    dc: "(d, c) \<in> set (tf ?idx ?s)" and
    h: "h = \<lparr>URL = d, Score = (real c / real (den_of ?idx d)) * ln (real (N ?idx) / real (df ?idx ?s))\<rparr>"
    by (auto simp: InMem_Search_cases set_sort_hits set_hits split: if_splits)
  from dc have "spec_posting lower stem st calls ?s d = Some c" by (simp add: build_tf_mem)
  then obtain ws where ws: "map_of calls d = Some ws" "?s \<in> set (kept_tokens lower stem st ws)"
      "c = count_list (kept_tokens lower stem st ws) ?s"
    by (auto simp: spec_posting_def split: option.splits if_splits)
  with h show ?thesis
    by (simp add: build_den build_N build_df)
qed

lemma InMem_Search_nonempty:
  assumes "term \<noteq> []" "N (build lower stem st calls) \<noteq> 0" "lower term \<notin> st"
    "df (build lower stem st calls) (stem (lower term)) \<noteq> 0"
  shows "InMem_Search lower stem (build lower stem st calls) term \<noteq> []"
proof -
  let ?idx = "build lower stem st calls" and ?s = "stem (lower term)"
  from assms(4) have "docs_containing lower stem st calls ?s \<noteq> {}"
    by (auto simp: build_df)
  then obtain d ws where ws: "map_of calls d = Some ws" "?s \<in> set (kept_tokens lower stem st ws)"
    by (auto simp: docs_containing_def)
  then have "spec_posting lower stem st calls ?s d = Some (count_list (kept_tokens lower stem st ws) ?s)"
    by (simp add: spec_posting_def)
  then have m: "(d, count_list (kept_tokens lower stem st ws) ?s) \<in> set (tf ?idx ?s)"
    by (simp add: build_tf_mem)
  from ws have "den_of ?idx d \<noteq> 0" by (auto simp: build_den)
  with m have "\<exists>h. h \<in> set (collect_hits ?idx (ln (real (N ?idx) / real (df ?idx ?s))) (tf ?idx ?s))"
    unfolding set_hits by blast
  then have "set (collect_hits ?idx (ln (real (N ?idx) / real (df ?idx ?s))) (tf ?idx ?s)) \<noteq> {}"
    by (metis empty_iff)
  then have "set (InMem_Search lower stem ?idx term) \<noteq> {}"
    using assms by (simp add: InMem_Search_cases build_stop set_sort_hits)
  then show ?thesis by auto
qed

lemma InMem_Search_empty_iff:
  "InMem_Search lower stem (build lower stem st calls) term = [] \<longleftrightarrow>
     term = [] \<or> N (build lower stem st calls) = 0 \<or> lower term \<in> st \<or>
     df (build lower stem st calls) (stem (lower term)) = 0"
  using InMem_Search_nonempty [of "term" lower stem st calls]
  by (auto simp: InMem_Search_cases build_stop)

lemma InMem_Search_score_nonneg:
  assumes "h \<in> set (InMem_Search lower stem (build lower stem st calls) term)"
  shows "0 \<le> Score h"
proof -
  let ?idx = "build lower stem st calls" and ?s = "stem (lower term)"
  from assms obtain d c where
    h: "h = \<lparr>URL = d, Score = (real c / real (den_of ?idx d)) * ln (real (N ?idx) / real (df ?idx ?s))\<rparr>"
    and nz: "df ?idx ?s \<noteq> 0"
    by (auto simp: InMem_Search_cases set_sort_hits set_hits split: if_splits)
  have "df ?idx ?s \<le> N ?idx" by (rule build_df_le_N)
  with nz have "1 \<le> real (N ?idx) / real (df ?idx ?s)" by (simp add: le_divide_eq)
  then have "0 \<le> ln (real (N ?idx) / real (df ?idx ?s))" by simp
  with h show ?thesis by simp
qed



section \<open>Properties of the extractor and of the crawler\<close>

lemmas eval_Extract = Extract_def Let_def isSkipped_def EqualFold_def ToLower_def lower_byte_def
  node_hrefs_def node_words_def TrimSpace_def isSpace_def isWordByte_def

lemmas eval_url = Cut_def isLetter_def isSchemeByte_def getScheme_def net_url_parse_def net_url_Parse_def
  upto_last_slash_def dot_step_def resolvePath_def net_url_ResolveReference_def net_url_String_def
  empty_URL_def ToLower_def lower_byte_def TrimSpace_def isSpace_def Let_def suffix_to_prefix

lemma walk_children_skipping:
  assumes "\<And>c ws hs d. c \<in> set cs \<Longrightarrow> 0 < d \<Longrightarrow> walk c (ws, hs, d) = (ws, hs, d)"
    and "0 < d"
  shows "walk_children cs (ws, hs, d) = (ws, hs, d)"
  using assms by (induction cs) simp_all

lemma walk_skipping: "0 < d \<Longrightarrow> walk n (ws, hs, d) = (ws, hs, d)"
proof (induction n arbitrary: ws hs d)
  case (Node nt nd na nc)
  have "walk_children nc (ws, hs, d') = (ws, hs, d')" if "0 < d'" for d'
    using Node.IH that by (intro walk_children_skipping) auto
  with Node.prems show ?case by (simp add: Let_def)
qed

lemma walk_children_skip: "0 < d \<Longrightarrow> walk_children cs (ws, hs, d) = (ws, hs, d)"
  by (rule walk_children_skipping) (simp_all add: walk_skipping)

lemma concat_href_values:
  "concat (map (\<lambda>a. if EqualFold (Key a) ''href''
                     then (let val = TrimSpace (Val a) in if val \<noteq> [] then [val] else [])
                     else []) atts) =
     filter (\<lambda>v. v \<noteq> [])
       (map (\<lambda>a. TrimSpace (Val a)) (filter (\<lambda>a. EqualFold (Key a) ''href'') atts))"
  by (induction atts) (simp_all add: Let_def)

lemma node_hrefs_eq:
  "node_hrefs (Node nt nd na nc) =
     (if nt = ElementNode \<and> EqualFold nd ''a''
      then filter (\<lambda>v. v \<noteq> [])
             (map (\<lambda>a. TrimSpace (Val a)) (filter (\<lambda>a. EqualFold (Key a) ''href'') na))
      else [])"
  by (simp add: node_hrefs_def concat_href_values)

lemma walk_children_hrefs:
  assumes "\<And>c ws hs. c \<in> set cs \<Longrightarrow> \<exists>ws'. walk c (ws, hs, 0) = (ws', hs @ trimmed_hrefs c, 0)"
  shows "\<exists>ws'. walk_children cs (ws, hs, 0) = (ws', hs @ trimmed_hrefs_list cs, 0)"
  using assms
proof (induction cs arbitrary: ws hs)
  case Nil
  then show ?case by simp
next
  case (Cons c cs)
  from Cons.prems [of c ws hs] obtain ws1 where
    1: "walk c (ws, hs, 0) = (ws1, hs @ trimmed_hrefs c, 0)" by auto
  from Cons.IH [of ws1 "hs @ trimmed_hrefs c"] Cons.prems obtain ws2 where
    "walk_children cs (ws1, hs @ trimmed_hrefs c, 0) = (ws2, (hs @ trimmed_hrefs c) @ trimmed_hrefs_list cs, 0)"
    by auto
  with 1 show ?case by simp
qed

lemma walk_hrefs: "\<exists>ws'. walk n (ws, hs, 0) = (ws', hs @ trimmed_hrefs n, 0)"
proof (induction n arbitrary: ws hs)
  case (Node nt nd na nc)
  let ?n = "Node nt nd na nc"
  show ?case
  proof (cases "isSkipped ?n")
    case True
    then show ?thesis by (simp add: walk_children_skip)
  next
    case False
    obtain ws' where
      "walk_children nc (ws @ node_words ?n, hs @ node_hrefs ?n, 0) =
         (ws', (hs @ node_hrefs ?n) @ trimmed_hrefs_list nc, 0)"
      using walk_children_hrefs [of nc "ws @ node_words ?n" "hs @ node_hrefs ?n"] Node.IH by auto
    with False show ?thesis by (simp add: Let_def node_hrefs_eq)
  qed
qed

lemma Extract_hrefs: "snd (Extract (Inr doc)) = trimmed_hrefs doc"
  using walk_hrefs [of doc "[]" "[]"] by (auto simp: Extract_def)

lemma enqueue_set:
  "set (enqueue E hostBase visited cur queue h) \<subseteq> set queue \<union> {u. prefix hostBase u}"
  by (auto simp: enqueue_def Let_def)

lemma foldl_enqueue_set:
  "set (foldl (enqueue E hostBase visited cur) queue hs) \<subseteq> set queue \<union> {u. prefix hostBase u}"
proof (induction hs arbitrary: queue)
  case Nil
  then show ?case by simp
next
  case (Cons h hs)
  show ?case
    using Cons [of "enqueue E hostBase visited cur queue h"] enqueue_set [of E hostBase visited cur queue h]
    by auto
qed

lemma crawl_loop_subset:
  "set (crawl_loop E hostBase maxPages visited queue order) \<subseteq> set order \<union> set queue \<union> {u. prefix hostBase u}"
proof (induction E hostBase maxPages visited queue order rule: crawl_loop.induct)
  case (1 E hostBase maxPages visited queue order)
  show ?case
  proof (cases queue)
    case Nil
    then show ?thesis by (simp add: crawl_loop.simps [of E hostBase maxPages visited "[]"])
  next
    case (Cons cur queue1)
    note q = Cons
    show ?thesis
    proof (cases "int (length order) < maxPages")
      case False
      with q show ?thesis by (auto simp add: crawl_loop.simps [of E hostBase maxPages visited "cur # queue1"])
    next
      case lt: True
      show ?thesis
      proof (cases "cur \<in> visited")
        case True
        with q lt 1(1) [of cur queue1] show ?thesis
          by (auto simp add: crawl_loop.simps [of E hostBase maxPages visited "cur # queue1"])
      next
        case nv: False
        obtain body err where d: "Download (http_Get E cur) = (body, err)"
          by (cases "Download (http_Get E cur)")
        show ?thesis
        proof (cases err)
          case None
          let ?q = "foldl (enqueue E hostBase (insert cur visited) cur) queue1
                      (snd (Extract (html_Parse E (case body of None \<Rightarrow> [] | Some b \<Rightarrow> b))))"
          have "set (crawl_loop E hostBase maxPages (insert cur visited) ?q (order @ [cur]))
                  \<subseteq> set (order @ [cur]) \<union> set ?q \<union> {u. prefix hostBase u}"
            using 1(2) [of cur queue1 body err] q lt nv d None by simp
          moreover have "set ?q \<subseteq> set queue1 \<union> {u. prefix hostBase u}"
            by (rule foldl_enqueue_set)
          ultimately show ?thesis
            using q lt nv d None
            by (auto simp add: crawl_loop.simps [of E hostBase maxPages visited "cur # queue1"])
        next
          case (Some e)
          have "set (crawl_loop E hostBase maxPages (insert cur visited) queue1 (order @ [cur]))
                  \<subseteq> set (order @ [cur]) \<union> set queue1 \<union> {u. prefix hostBase u}"
            using 1(3) [of cur queue1 body err e] q lt nv d Some by simp
          then show ?thesis
            using q lt nv d Some
            by (auto simp add: crawl_loop.simps [of E hostBase maxPages visited "cur # queue1"])
        qed
      qed
    qed
  qed
qed

lemma Crawl_test_site:
  "Crawl test_site ''http://site.test/'' 4 =
     Inr [''http://site.test/'', ''http://site.test/d1'', ''http://site.test/d2'', ''http://site.test/d3'']"
  by (simp add: Crawl_def test_site_def crawl_loop.simps ok_page_def page_of_def Download_def
      enqueue_def CleanHref_def eval_url eval_Extract)

section \<open>Properties of the SQLite indexer\<close>

lemmas eval_sq = sq_build_def SQLite_AddDocument_def NewSQLiteIndexer_def insert_or_ignore_def
  next_rowid_def select_id_def count_word_def insert_or_replace_hit_def put_word_def sq_df_def
  sq_rows_def SQLite_Search_def ToLower_def lower_byte_def stem_example_def Let_def sort_hits_def

lemmas eval_inmem = build_def InMem_AddDocument_def NewInMemIndexer_def add_word_def InMem_Search_def
  ToLower_def lower_byte_def stem_example_def Let_def sort_hits_def

lemmas eval_v2 = v2_build_def V2_Add_def NewSQLiteIndexV2_def v2_select_id_def v2_word_def
  upsert_frequency_def v2_term_def v2_rows_def V2_SearchTFIDF_def next_rowid_def
  ToLower_def lower_byte_def stem_example_def Let_def sort_hits_def

lemma insert_or_ignore_ids: "fst ` set rows \<subseteq> fst ` set (insert_or_ignore v rows)"
  by (auto simp: insert_or_ignore_def)

lemma select_id_mem: "select_id rows v = Some i \<Longrightarrow> i \<in> fst ` set rows"
  by (induction rows) (auto simp: select_id_def split: if_splits)

lemma count_word_pos:
  "\<forall>p \<in> set wc. 1 \<le> snd p \<Longrightarrow> \<forall>p \<in> set (count_word lower stem st wc w). 1 \<le> snd p"
proof -
  have "\<forall>p \<in> set (map_default s (Suc 0) Suc wc). Suc 0 \<le> snd p" if "\<forall>p \<in> set wc. Suc 0 \<le> snd p" for s
    using that by (induction wc) auto
  then show "\<forall>p \<in> set wc. 1 \<le> snd p \<Longrightarrow> ?thesis"
    by (simp add: count_word_def Let_def)
qed

lemma foldl_count_word_pos:
  "\<forall>p \<in> set wc. 1 \<le> snd p \<Longrightarrow> \<forall>p \<in> set (foldl (count_word lower stem st) wc ws). 1 \<le> snd p"
proof (induction ws arbitrary: wc)
  case Nil
  then show ?case by simp
next
  case (Cons w ws)
  from Cons.prems have "\<forall>p \<in> set (count_word lower stem st wc w). 1 \<le> snd p"
    by (rule count_word_pos)
  then show ?case using Cons.IH by simp
qed

lemma put_word_ok:
  assumes "\<forall>h \<in> set hs. fst h \<in> U \<and> 1 \<le> snd (snd h)" "urlID \<in> U" "1 \<le> snd wc"
  shows "\<forall>h \<in> set (snd (put_word urlID (ws, hs) wc)). fst h \<in> U \<and> 1 \<le> snd (snd h)"
  using assms by (auto simp: put_word_def Let_def insert_or_replace_hit_def)

lemma foldl_put_word_ok:
  assumes "\<forall>h \<in> set hs. fst h \<in> U \<and> 1 \<le> snd (snd h)" "urlID \<in> U" "\<forall>p \<in> set wcs. 1 \<le> snd p"
  shows "\<forall>h \<in> set (snd (foldl (put_word urlID) (ws, hs) wcs)). fst h \<in> U \<and> 1 \<le> snd (snd h)"
  using assms
proof (induction wcs arbitrary: ws hs)
  case Nil
  then show ?case by simp
next
  case (Cons wc wcs)
  obtain ws1 hs1 where p: "put_word urlID (ws, hs) wc = (ws1, hs1)"
    by (cases "put_word urlID (ws, hs) wc")
  from Cons.prems have "\<forall>h \<in> set hs1. fst h \<in> U \<and> 1 \<le> snd (snd h)"
    using put_word_ok [of hs U urlID wc ws] by (simp add: p)
  with Cons.IH [of hs1 ws1] Cons.prems show ?case by (simp add: p)
qed

lemma SQLite_AddDocument_stop: "sq_stop (fst (SQLite_AddDocument lower stem idx url ws)) = sq_stop idx"
  by (simp add: SQLite_AddDocument_def Let_def split: option.splits prod.splits)

lemma SQLite_AddDocument_ok:
  assumes "hits_ok idx"
  shows "hits_ok (fst (SQLite_AddDocument lower stem idx url ws))"
proof (cases "select_id (insert_or_ignore url (tbl_urls idx)) url")
  case None
  with assms show ?thesis by (simp add: SQLite_AddDocument_def Let_def)
next
  case (Some urlID)
  let ?U = "fst ` set (insert_or_ignore url (tbl_urls idx))"
  let ?wcs = "foldl (count_word lower stem (sq_stop idx)) [] ws"
  obtain ws1 hs1 where f: "foldl (put_word urlID) (tbl_words idx, tbl_hits idx) ?wcs = (ws1, hs1)"
    by (cases "foldl (put_word urlID) (tbl_words idx, tbl_hits idx) ?wcs")
  have 1: "\<forall>h \<in> set (tbl_hits idx). fst h \<in> ?U \<and> 1 \<le> snd (snd h)"
    using assms insert_or_ignore_ids [of "tbl_urls idx" url] by (auto simp: hits_ok_def)
  have 2: "urlID \<in> ?U" using Some by (rule select_id_mem)
  have 3: "\<forall>p \<in> set ?wcs. 1 \<le> snd p" by (rule foldl_count_word_pos) simp
  have "\<forall>h \<in> set hs1. fst h \<in> ?U \<and> 1 \<le> snd (snd h)"
    using foldl_put_word_ok [OF 1 2 3, of "tbl_words idx"] by (simp add: f)
  then show ?thesis
    by (simp add: SQLite_AddDocument_def Let_def Some f hits_ok_def)
qed

lemma sq_build_snoc:
  "sq_build lower stem st (calls @ [c]) =
     fst (SQLite_AddDocument lower stem (sq_build lower stem st calls) (fst c) (snd c))"
  by (simp add: sq_build_def)

lemma sq_build_ok: "hits_ok (sq_build lower stem st calls)"
proof (induction calls rule: rev_induct)
  case Nil
  then show ?case by (simp add: sq_build_def NewSQLiteIndexer_def hits_ok_def)
next
  case (snoc c calls)
  then show ?case by (simp add: sq_build_snoc SQLite_AddDocument_ok)
qed

lemma sq_build_stop: "sq_stop (sq_build lower stem st calls) = st"
proof (induction calls rule: rev_induct)
  case Nil
  then show ?case by (simp add: sq_build_def NewSQLiteIndexer_def)
next
  case (snoc c calls)
  then show ?case by (simp add: sq_build_snoc SQLite_AddDocument_stop)
qed

lemma sq_collect_nonempty:
  "(url, cnt, tot) \<in> set rows \<Longrightarrow> 0 < tot \<Longrightarrow> sq_collect idf rows \<noteq> []"
  by (induction idf rows rule: sq_collect.induct) auto

lemma sum_list_ge_member: "(x::nat) \<in> set xs \<Longrightarrow> x \<le> sum_list xs"
  by (induction xs) auto

lemma sq_rows_nonempty:
  assumes "hits_ok idx" "sq_df idx s \<noteq> 0"
  shows "\<exists>url cnt tot. (url, cnt, tot) \<in> set (sq_rows idx s) \<and> 0 < tot"
proof -
  from assms(2) obtain h w where hw: "h \<in> set (tbl_hits idx)" "w \<in> set (tbl_words idx)"
      "fst (snd h) = Some (fst w)" "snd w = s"
    by (auto simp: sq_df_def split: if_splits)
  with assms(1) obtain u where u: "u \<in> set (tbl_urls idx)" "fst u = fst h" and c: "1 \<le> snd (snd h)"
    by (auto simp: hits_ok_def)
  let ?tot = "sum_list [snd (snd h2). h2 \<leftarrow> tbl_hits idx, fst h2 = fst u]"
  have "snd (snd h) \<in> set [snd (snd h2). h2 \<leftarrow> tbl_hits idx, fst h2 = fst u]"
    using hw(1) u(2) by force
  then have "snd (snd h) \<le> ?tot" by (rule sum_list_ge_member)
  with c have "0 < ?tot" by simp
  moreover have "(snd u, snd (snd h), ?tot) \<in> set (sq_rows idx s)"
    using hw u unfolding sq_rows_def by force
  ultimately show ?thesis by blast
qed

lemma SQLite_Search_cases:
  "SQLite_Search lower stem idx qterm =
     (if qterm = [] \<or> lower qterm \<in> sq_stop idx \<or> length (tbl_urls idx) = 0
         \<or> sq_df idx (stem (lower qterm)) = 0 then []
      else sort_hits (sq_collect (ln (real (length (tbl_urls idx)) / real (sq_df idx (stem (lower qterm)))))
             (sq_rows idx (stem (lower qterm)))))"
  by (simp add: SQLite_Search_def Let_def)

lemma sort_hits_empty_iff: "sort_hits hs = [] \<longleftrightarrow> hs = []"
  using length_sort_hits [of hs] by (metis length_0_conv)

lemma SQLite_Search_empty_iff:
  "SQLite_Search lower stem (sq_build lower stem st calls) qterm = [] \<longleftrightarrow>
     qterm = [] \<or> lower qterm \<in> st \<or> length (tbl_urls (sq_build lower stem st calls)) = 0 \<or>
     sq_df (sq_build lower stem st calls) (stem (lower qterm)) = 0"
proof -
  let ?idx = "sq_build lower stem st calls"
  have "sq_collect idf (sq_rows ?idx (stem (lower qterm))) \<noteq> []"
    if "sq_df ?idx (stem (lower qterm)) \<noteq> 0" for idf
    using sq_rows_nonempty [OF sq_build_ok that] sq_collect_nonempty by blast
  then show ?thesis
    by (auto simp: SQLite_Search_cases sq_build_stop sort_hits_empty_iff)
qed

lemma InMem_AddDocument_present:
  "docLen (InMem_AddDocument lower stem idx doc ws) doc \<noteq> None"
  by (cases "docLen idx doc") (simp_all add: InMem_AddDocument_new InMem_AddDocument_dup)

lemma InMem_AddDocument_twice:
  "InMem_AddDocument lower stem (InMem_AddDocument lower stem idx doc ws) doc ws' =
     InMem_AddDocument lower stem idx doc ws"
  by (rule InMem_AddDocument_dup) (rule InMem_AddDocument_present)

section \<open>The claims about searching and ranking\<close>

text \<open>
  Claim C4.  On every index built by \<open>AddDocument\<close> calls, in memory or in
  SQLite, \<open>Search\<close> returns an empty result exactly when the query term is
  empty, the document count is 0, the lower-cased term is in the stopword set,
  or the stemmed term has document frequency 0.  In particular a stopword
  query is empty on every index state whatsoever.  (\<open>Search\<close> has no error
  result in the model: the in-memory indexer returns \<open>nil\<close> on every path, the
  SQLite indexer whenever the database executes its queries.)
\<close>

theorem Search_empty_exactly:
  "(InMem_Search lower stem (build lower stem st calls) qterm = [] \<longleftrightarrow>
      qterm = [] \<or> N (build lower stem st calls) = 0 \<or> lower qterm \<in> st \<or>
      df (build lower stem st calls) (stem (lower qterm)) = 0)
   \<and> (SQLite_Search lower stem (sq_build lower stem st calls) qterm = [] \<longleftrightarrow>
      qterm = [] \<or> lower qterm \<in> st \<or> length (tbl_urls (sq_build lower stem st calls)) = 0 \<or>
      sq_df (sq_build lower stem st calls) (stem (lower qterm)) = 0)
   \<and> (lower q \<in> stop idx \<longrightarrow> InMem_Search lower stem idx q = [])
   \<and> (lower q \<in> sq_stop sidx \<longrightarrow> SQLite_Search lower stem sidx q = [])"
proof (intro conjI)
  show "InMem_Search lower stem (build lower stem st calls) qterm = [] \<longleftrightarrow>
      qterm = [] \<or> N (build lower stem st calls) = 0 \<or> lower qterm \<in> st \<or>
      df (build lower stem st calls) (stem (lower qterm)) = 0"
    by (rule InMem_Search_empty_iff)
  show "SQLite_Search lower stem (sq_build lower stem st calls) qterm = [] \<longleftrightarrow>
      qterm = [] \<or> lower qterm \<in> st \<or> length (tbl_urls (sq_build lower stem st calls)) = 0 \<or>
      sq_df (sq_build lower stem st calls) (stem (lower qterm)) = 0"
    by (rule SQLite_Search_empty_iff)
  show "lower q \<in> stop idx \<longrightarrow> InMem_Search lower stem idx q = []"
    by (simp add: InMem_Search_cases)
  show "lower q \<in> sq_stop sidx \<longrightarrow> SQLite_Search lower stem sidx q = []"
    by (simp add: SQLite_Search_cases)
qed

theorem Search_empty_exactly_witness:
  "ToLower ''The'' \<in> stop (NewInMemIndexer None)
   \<and> InMem_Search ToLower stem_example (NewInMemIndexer None) ''The'' = []
   \<and> ToLower ''The'' \<in> sq_stop (NewSQLiteIndexer None)
   \<and> SQLite_Search ToLower stem_example (NewSQLiteIndexer None) ''The'' = []
   \<and> InMem_Search ToLower stem_example (build ToLower stem_example DefaultStopwords whale_doc)
        ''whale'' \<noteq> []
   \<and> SQLite_Search ToLower stem_example (sq_build ToLower stem_example DefaultStopwords whale_doc)
        ''whale'' \<noteq> []
   \<and> sq_df (sq_build ToLower stem_example DefaultStopwords whale_doc) ''whale'' = 1"
  using Search_empty_exactly [where lower = ToLower and stem = stem_example
      and st = DefaultStopwords and calls = whale_doc
      and qterm = "''whale''" and q = "''The''" and idx = "NewInMemIndexer None"
      and sidx = "NewSQLiteIndexer None"]
  by (simp add: whale_doc_def eval_inmem eval_sq DefaultStopwords_def)



text \<open>
  Claim C10.  After every sequence of \<open>AddDocument\<close> calls on the in-memory
  indexer, \<open>df s \<le> N\<close> for every stem \<open>s\<close>; hence the \<open>idf = ln (N / df)\<close> that
  \<open>Search\<close> computes for a stem of positive document frequency is
  non-negative, and every returned hit has a non-negative score.
\<close>

theorem InMem_df_le_N_score_nonneg:
  "df (build lower stem st calls) s \<le> N (build lower stem st calls)
   \<and> (0 < df (build lower stem st calls) s \<longrightarrow>
        0 \<le> ln (real (N (build lower stem st calls)) / real (df (build lower stem st calls) s)))
   \<and> (\<forall>h \<in> set (InMem_Search lower stem (build lower stem st calls) qterm). 0 \<le> Score h)"
proof -
  let ?idx = "build lower stem st calls"
  have le: "df ?idx s \<le> N ?idx" by (rule build_df_le_N)
  have "0 \<le> ln (real (N ?idx) / real (df ?idx s))" if "0 < df ?idx s"
  proof -
    from le that have "1 \<le> real (N ?idx) / real (df ?idx s)" by (simp add: le_divide_eq)
    then show ?thesis by simp
  qed
  with le show ?thesis
    using InMem_Search_score_nonneg [of _ lower stem st calls qterm] by blast
qed

theorem InMem_df_le_N_score_nonneg_witness:
  "df (build ToLower stem_example DefaultStopwords sea_corpus) ''whale'' = 1
   \<and> N (build ToLower stem_example DefaultStopwords sea_corpus) = 2
   \<and> 0 \<le> ln (real (N (build ToLower stem_example DefaultStopwords sea_corpus))
             / real (df (build ToLower stem_example DefaultStopwords sea_corpus) ''whale''))
   \<and> InMem_Search ToLower stem_example (build ToLower stem_example DefaultStopwords sea_corpus)
        ''whale'' = [\<lparr>URL = ''a.html'', Score = 1 / 2 * ln 2\<rparr>]
   \<and> 0 \<le> Score \<lparr>URL = ''a.html'', Score = 1 / 2 * ln 2\<rparr>"
  using InMem_df_le_N_score_nonneg [where lower = ToLower and stem = stem_example
      and st = DefaultStopwords and calls = sea_corpus and s = "''whale''" and qterm = "''whale''"]
  by (simp add: sea_corpus_def build_def InMem_AddDocument_def NewInMemIndexer_def add_word_def
      ToLower_def lower_byte_def stem_example_def DefaultStopwords_def Let_def InMem_Search_def
      sort_hits_def)

section \<open>The claims about the crawler, the downloader and the extractor\<close>

text \<open>
  Claim C6.  When the start URL parses, \<open>Crawl\<close> returns a sequence of URLs
  (for every \<open>maxPages\<close> and every environment), and every URL in it is the
  start URL or has the string \<open>scheme://host/\<close> of the start URL as a prefix.
\<close>

theorem Crawl_stays_on_host:
  assumes "url_Parse E start = Inr startURL"
  shows "\<exists>order. Crawl E start maxPages = Inr order \<and>
           (\<forall>u \<in> set order. u = start \<or> prefix (Scheme startURL @ ''://'' @ Host startURL @ ''/'') u)"
proof (cases "maxPages \<le> 0")
  case True
  then show ?thesis by (simp add: Crawl_def)
next
  case False
  let ?hb = "Scheme startURL @ ''://'' @ Host startURL @ ''/''"
  have "set (crawl_loop E ?hb maxPages {} [start] []) \<subseteq> set [] \<union> set [start] \<union> {u. prefix ?hb u}"
    by (rule crawl_loop_subset)
  with False assms show ?thesis by (auto simp: Crawl_def)
qed

theorem Crawl_stays_on_host_witness:
  "url_Parse test_site ''http://site.test/'' =
     Inr \<lparr>Scheme = ''http'', Opaque = [], Host = ''site.test'', Path = ''/'', ForceQuery = False,
          RawQuery = [], Fragment = []\<rparr>
   \<and> Crawl test_site ''http://site.test/'' 4 =
     Inr [''http://site.test/'', ''http://site.test/d1'', ''http://site.test/d2'', ''http://site.test/d3'']
   \<and> prefix ''http://site.test/'' ''http://site.test/d3''"
proof -
  have p: "url_Parse test_site ''http://site.test/'' =
     Inr \<lparr>Scheme = ''http'', Opaque = [], Host = ''site.test'', Path = ''/'', ForceQuery = False,
          RawQuery = [], Fragment = []\<rparr>"
    by (simp add: test_site_def eval_url)
  show ?thesis
    using Crawl_stays_on_host [OF p, of 4] by (simp add: p Crawl_test_site)
qed




text \<open>
  Claim C8, as stated, fails: on a page with the anchors \<open>href=" a.html "\<close> and
  \<open>href=""\<close> the sequence returned by \<open>Extract\<close> is not the sequence of
  attribute values.
\<close>

theorem Extract_hrefs_verbatim_counterexample:
  "snd (Extract (Inr padded_page)) = [''a.html'', ''/abs/b.html#frag'']
   \<and> verbatim_hrefs padded_page = ['' a.html '', [], ''/abs/b.html#frag'']"
  by (simp add: padded_page_def eval_Extract)

text \<open>
  Claim C8, amended.  The href sequence returned by \<open>Extract\<close> consists of
  exactly the \<open>href\<close> attribute values of anchor elements outside script and
  style subtrees, each trimmed of surrounding white space and dropped when
  empty, otherwise unaltered, in document order, and of no href from any other
  element; a page that does not parse yields no hrefs.
\<close>

theorem Extract_hrefs_trimmed:
  "snd (Extract (Inr doc)) = trimmed_hrefs doc \<and> snd (Extract (Inl err)) = []"
  by (simp add: Extract_hrefs) (simp add: Extract_def)

text \<open>
  Claim C9.  \<open>CleanHref\<close> trims the href; returns the empty string if the
  result is empty or begins with \<open>#\<close>; returns the empty string if, in lower
  case, it begins with \<open>javascript:\<close> or \<open>data:\<close>; otherwise it resolves the href
  against the base, on which a trailing slash is ensured, and strips the
  fragment (a base that does not parse gives the empty string, an href that
  does not parse is taken as a bare path).  In particular the two examples of
  the specification hold.
\<close>

theorem CleanHref_rules_in_order:
  "CleanHref E base href =
     (if TrimSpace href = [] \<or> prefix ''#'' (TrimSpace href) then []
      else if prefix ''javascript:'' (ToLower (TrimSpace href)) \<or> prefix ''data:'' (ToLower (TrimSpace href))
        then []
      else case url_Parse E (if suffix ''/'' base then base else base @ ''/'') of
             Inl err \<Rightarrow> []
           | Inr baseURL \<Rightarrow>
               url_String E
                 ((url_ResolveReference E baseURL
                     (case url_Parse E (TrimSpace href) of
                        Inr u \<Rightarrow> u
                      | Inl err \<Rightarrow> empty_URL\<lparr>Path := TrimSpace href\<rparr>))\<lparr>Fragment := []\<rparr>))
   \<and> CleanHref offline ''http://example.com/base/'' ''c.html#sec'' = ''http://example.com/base/c.html''
   \<and> CleanHref E base ''javascript:alert(1)'' = []"
proof (intro conjI)
  show "CleanHref offline ''http://example.com/base/'' ''c.html#sec'' = ''http://example.com/base/c.html''"
    by (simp add: CleanHref_def offline_def eval_url)
  show "CleanHref E base ''javascript:alert(1)'' = []"
    by (simp add: CleanHref_def ToLower_def lower_byte_def TrimSpace_def isSpace_def Let_def)
qed (simp add: CleanHref_def Let_def split: sum.splits)

theorem CleanHref_rules_in_order_witness:
  "CleanHref offline ''http://example.com/base'' '' /x#top '' = ''http://example.com/x''
   \<and> CleanHref offline ''http://example.com/base/'' ''#frag'' = []
   \<and> CleanHref offline ''http://example.com/base/'' ''Data:text/plain;base64,AAAA'' = []
   \<and> CleanHref offline ''http://example.com/base/'' ''a/b'' = ''http://example.com/base/a/b''"
  using CleanHref_rules_in_order [of offline "''http://example.com/base''" "'' /x#top ''"]
  by (simp add: CleanHref_def offline_def eval_url)

section \<open>The claims about the backends\<close>

text \<open>
  Claim C1 says that every hit has the score
  \<open>(count_in_doc / docLen) * ln (N / df)\<close>, with \<open>docLen\<close> the number of tokens of
  the document that survive stopword and stem filtering.  The in-memory
  indexer computes this (lemma \<open>InMem_Search_score\<close>).  \<open>SQLiteIndexV2.Add\<close>
  stores \<open>len(words)\<close> instead: for the document \<open>the whale\<close>, of which one
  token survives, in a corpus of two documents, the score of \<open>whale\<close> is
  \<open>1/2 * ln 2\<close> and not \<open>1/1 * ln (2/1)\<close>.
\<close>

theorem V2_score_divides_by_raw_word_count:
  "kept_tokens ToLower stem_example DefaultStopwords [''the'', ''whale''] = [''whale'']
   \<and> documents (v2_build ToLower stem_example DefaultStopwords stopword_calls)
       = [(1, ''a.html'', 2), (2, ''b.html'', 1)]
   \<and> V2_SearchTFIDF ToLower stem_example
        (v2_build ToLower stem_example DefaultStopwords stopword_calls) ''whale''
       = [\<lparr>URL = ''a.html'', Score = 1 / 2 * ln 2\<rparr>]
   \<and> InMem_Search ToLower stem_example
        (build ToLower stem_example DefaultStopwords stopword_calls) ''whale''
       = [\<lparr>URL = ''a.html'', Score = 1 / 1 * ln (2 / 1)\<rparr>]
   \<and> (1 / 2 * ln 2 :: real) \<noteq> 1 / 1 * ln (2 / 1)"
  by (simp add: stopword_calls_def kept_tokens_def eval_v2 eval_inmem DefaultStopwords_def)

text \<open>
  Claim C2 says that the in-memory and the SQLite backend return the same
  hits after the same calls.  After \<open>AddDocument\<close> of one URL with the word
  \<open>whale\<close> and then with the word \<open>ship\<close>, a search for \<open>ship\<close> finds nothing in
  memory and one hit in SQLite.
\<close>

theorem backends_differ_after_second_add:
  "InMem_Search ToLower stem_example
      (build ToLower stem_example DefaultStopwords readd_calls) ''ship'' = []
   \<and> SQLite_Search ToLower stem_example
      (sq_build ToLower stem_example DefaultStopwords readd_calls) ''ship''
     = [\<lparr>URL = ''d.html'', Score = 0\<rparr>]"
  by (simp add: readd_calls_def eval_inmem eval_sq DefaultStopwords_def)

text \<open>
  Claim C3 says that \<open>AddDocument\<close> of a URL that was added before changes
  nothing.  The in-memory indexer returns at once (lemmas
  \<open>InMem_AddDocument_dup\<close>, \<open>InMem_AddDocument_twice\<close>).
  \<open>SQLiteIndexer.AddDocument\<close> has no such test: the second call succeeds and
  stores a posting for the new word, which changes the document frequency of
  \<open>ship\<close> from 0 to 1 and the length of the document from 1 to 2.
\<close>

theorem SQLite_second_add_changes_postings:
  "tbl_hits (sq_build ToLower stem_example DefaultStopwords [(''d.html'', [''whale''])])
     = [(1, Some 1, 1)]
   \<and> SQLite_AddDocument ToLower stem_example
        (sq_build ToLower stem_example DefaultStopwords [(''d.html'', [''whale''])])
        ''d.html'' [''ship'']
     = (\<lparr>tbl_urls = [(1, ''d.html'')], tbl_words = [(1, ''whale''), (2, ''ship'')],
         tbl_hits = [(1, Some 1, 1), (1, Some 2, 1)], sq_stop = DefaultStopwords\<rparr>, None)
   \<and> sq_df (sq_build ToLower stem_example DefaultStopwords [(''d.html'', [''whale''])]) ''ship'' = 0
   \<and> sq_df (sq_build ToLower stem_example DefaultStopwords readd_calls) ''ship'' = 1
   \<and> sq_rows (sq_build ToLower stem_example DefaultStopwords [(''d.html'', [''whale''])]) ''whale''
     = [(''d.html'', 1, 1)]
   \<and> sq_rows (sq_build ToLower stem_example DefaultStopwords readd_calls) ''whale''
     = [(''d.html'', 1, 2)]
   \<and> build ToLower stem_example DefaultStopwords readd_calls
     = build ToLower stem_example DefaultStopwords [(''d.html'', [''whale''])]"
proof -
  have "build ToLower stem_example DefaultStopwords readd_calls
     = build ToLower stem_example DefaultStopwords [(''d.html'', [''whale''])]"
    by (simp add: readd_calls_def build_def InMem_AddDocument_twice)
  then show ?thesis
    by (simp add: readd_calls_def eval_sq DefaultStopwords_def)
qed

end
